theory Spec2Isabelle
  imports Main "HOL-Library.Word" "HOL-Library.AList"
begin

section \<open>JavaScript values used by the utilities\<close>

text \<open>
  A JavaScript string is a sequence of UTF-16 code units. Literals of the source are
  written \<open>js ''...''\<close>.
\<close>

type_synonym code_unit = "16 word"
type_synonym jsstring = "code_unit list"

definition js :: "string \<Rightarrow> jsstring" where
  "js s = map of_char s"

text \<open>
  Errors thrown by the code are values. The \<open>ForgeError\<close> codes are the ones the
  four utilities throw; \<open>COOLDOWN_ACTIVE\<close> carries the remaining milliseconds from which
  the source renders its message text (\<open>formatMs(remaining) + " remaining"\<close>).
  \<open>TypeError\<close> is the runtime's error for a property read on \<open>null\<close> or
  \<open>undefined\<close>; \<open>DiscordAPIError\<close> is the client library's error for a call the
  platform refuses; \<open>REGEXP_UNSUPPORTED\<close> marks a regular-expression source outside the
  fragment of the engine modelled below.
\<close>

datatype error =
    ROUTER_INVALID_PATTERN
  | PAGINATOR_NO_PAGES
  | PAGINATOR_INVALID_PAGE
  | COOLDOWN_ACTIVE int
  | COOLDOWN_INVALID_DURATION
  | CONFIRMATION_TIMED_OUT
  | TypeError
  | DiscordAPIError
  | REGEXP_UNSUPPORTED

datatype 'a outcome = Returned 'a | Threw error

section \<open>The regular expressions built by the router\<close>

text \<open>
  \<open>_register\<close> builds the source text of a regular expression from a string pattern:
  \<^verbatim>\<open>pattern.replace(/[.+?^${}()|[\]\\]/g, '\\$&')\<close> puts a backslash before each of
  the thirteen listed characters, \<^verbatim>\<open>.replace(/\*/g, '(.+)')\<close> turns each star into a
  group, and the template \<^verbatim>\<open>`^${escaped}$`\<close> adds the two anchors.
\<close>

definition backslash :: code_unit where "backslash = 0x5C"
definition star :: code_unit where "star = 0x2A"

definition escaped_chars :: "code_unit list" where
  "escaped_chars = js ''.+?^${}()|[]'' @ [backslash]"

definition escapeMeta :: "jsstring \<Rightarrow> jsstring" where
  "escapeMeta p = concat (map (\<lambda>c. if c \<in> set escaped_chars then [backslash, c] else [c]) p)"

definition replaceStars :: "jsstring \<Rightarrow> jsstring" where
  "replaceStars s = concat (map (\<lambda>c. if c = star then js ''(.+)'' else [c]) s)"

definition globSource :: "jsstring \<Rightarrow> jsstring" where
  "globSource p = js ''^'' @ replaceStars (escapeMeta p) @ js ''$''"

definition exactSource :: "jsstring \<Rightarrow> jsstring" where
  "exactSource p = js ''^'' @ escapeMeta p @ js ''$''"

text \<open>
  The engine behind \<open>new RegExp\<close> and \<open>String.prototype.match\<close> belongs to the
  runtime. It is modelled for the fragment those sources stay in: the assertions
  \<open>^\<close> and \<open>$\<close> (no multiline flag), a pattern character, an identity escape
  \<open>\c\<close> of a syntax character, and the group \<open>(.+)\<close>. The dot matches any code unit
  except the four line terminators (no dotAll flag).
\<close>

datatype re_atom = Bol | Eol | PatternChar code_unit | DotPlusGroup

definition syntax_chars :: "code_unit list" where
  "syntax_chars = js ''^$.*+?()[]{}|'' @ [backslash]"

fun parse_re :: "jsstring \<Rightarrow> re_atom list option" where
  "parse_re [] = Some []"
| "parse_re (c # cs) =
     (if c = 0x5E then map_option (Cons Bol) (parse_re cs)
      else if c = 0x24 then map_option (Cons Eol) (parse_re cs)
      else if c = backslash then
        (case cs of
           [] \<Rightarrow> None
         | d # ds \<Rightarrow> if d \<in> set syntax_chars
                    then map_option (Cons (PatternChar d)) (parse_re ds) else None)
      else if c = 0x28 then
        (if take 3 cs = js ''.+)''
         then map_option (Cons DotPlusGroup) (parse_re (drop 3 cs)) else None)
      else if c \<in> set syntax_chars then None
      else map_option (Cons (PatternChar c)) (parse_re cs))"

definition lineTerminator :: "code_unit \<Rightarrow> bool" where
  "lineTerminator c \<longleftrightarrow> c = 0x0A \<or> c = 0x0D \<or> c = 0x2028 \<or> c = 0x2029"

text \<open>
  Backtracking, as the engine does it. \<open>exec_atoms as i s\<close> runs the atoms \<open>as\<close> at
  input position \<open>i\<close>, where \<open>s\<close> is the input from \<open>i\<close> on; it returns the captures
  and the end position of the first successful path. The greedy \<open>.+\<close> first takes the
  longest run of non-terminators and gives code units back one at a time, never going
  below one.
\<close>

primrec greedy ::
  "(nat \<Rightarrow> jsstring \<Rightarrow> (jsstring list \<times> nat) option) \<Rightarrow> nat \<Rightarrow> jsstring \<Rightarrow> nat
     \<Rightarrow> (jsstring list \<times> nat) option" where
  "greedy cont i s 0 = None"
| "greedy cont i s (Suc k) =
     (case cont (i + Suc k) (drop (Suc k) s) of
        Some (caps, e) \<Rightarrow> Some (take (Suc k) s # caps, e)
      | None \<Rightarrow> greedy cont i s k)"

primrec exec_atoms :: "re_atom list \<Rightarrow> nat \<Rightarrow> jsstring \<Rightarrow> (jsstring list \<times> nat) option" where
  "exec_atoms [] i s = Some ([], i)"
| "exec_atoms (a # as) i s =
     (case a of
        Bol \<Rightarrow> if i = 0 then exec_atoms as i s else None
      | Eol \<Rightarrow> if s = [] then exec_atoms as i s else None
      | PatternChar c \<Rightarrow>
          (case s of [] \<Rightarrow> None
           | d # s' \<Rightarrow> if d = c then exec_atoms as (Suc i) s' else None)
      | DotPlusGroup \<Rightarrow>
          greedy (exec_atoms as) i s (length (takeWhile (\<lambda>c. \<not> lineTerminator c) s)))"

text \<open>
  The result of a successful match, as the code reads it: \<open>match[0]\<close>, the positional
  captures \<open>match[1]\<close>, \<open>match[2]\<close>, ... (\<open>None\<close> for \<open>undefined\<close>), and
  \<open>match.groups\<close>, which is \<open>undefined\<close> when the expression has no named group and
  otherwise an object from group name to captured text or \<open>undefined\<close>.
\<close>

record jsmatch =
  matched :: jsstring
  captures :: "jsstring option list"
  groups :: "(jsstring \<times> jsstring option) list option"

text \<open>
  A match without the global or sticky flag tries the start positions 0, 1, ... in turn.
\<close>

function scan :: "re_atom list \<Rightarrow> jsstring \<Rightarrow> nat \<Rightarrow> jsmatch option" where
  "scan as s i =
     (if length s < i then None
      else case exec_atoms as i (drop i s) of
             Some (caps, e) \<Rightarrow>
               Some \<lparr>matched = take (e - i) (drop i s), captures = map Some caps,
                     groups = None\<rparr>
           | None \<Rightarrow> scan as s (Suc i))"
  by pat_completeness auto
termination
  by (relation "measure (\<lambda>(as, s, i). Suc (length s) - i)") auto

declare scan.simps [simp del]

text \<open>
  A \<open>RegExp\<close> object is either compiled from a source text (\<open>new RegExp(source)\<close>),
  or it is the caller's own object, handed to \<open>on\<close> or \<open>once\<close>. The caller's object is
  taken as the function \<open>String.prototype.match\<close> computes for it (an expression
  without the sticky flag keeps no state between matches).
\<close>

datatype RegExp =
    Compiled "re_atom list"
  | Native "jsstring \<Rightarrow> jsmatch option"

definition new_RegExp :: "jsstring \<Rightarrow> RegExp outcome" where
  "new_RegExp src =
     (case parse_re src of None \<Rightarrow> Threw REGEXP_UNSUPPORTED | Some as \<Rightarrow> Returned (Compiled as))"

fun str_match :: "jsstring \<Rightarrow> RegExp \<Rightarrow> jsmatch option" where
  "str_match s (Compiled as) = scan as s 0"
| "str_match s (Native f) = f s"

section \<open>InteractionRouter\<close>

text \<open>
  A handler is the caller's function; the model names it by a value of type \<open>'h\<close> and
  records which handler \<open>handle\<close> awaits and with which arguments. What the handler's
  body does (also whether it throws: the router does not catch) is the caller's. The
  fields of a route are \<open>pattern\<close>, \<open>compiled\<close>, \<open>handler\<close> and \<open>once\<close> in the
  source.
\<close>

datatype pattern = StringPattern jsstring | RegExpPattern RegExp | OtherPattern

datatype 'h callback = Function 'h | NotCallable

record 'h route =
  route_pattern :: pattern
  route_compiled :: RegExp
  route_handler :: 'h
  route_once :: bool

record 'h router =
  routes :: "'h route list"
  fallback_handler :: "'h option"

record interaction =
  customId :: "jsstring option"
  user_id :: jsstring

type_synonym params = "(jsstring \<times> jsstring option) list"

datatype 'h call = RouteCall 'h interaction params | FallbackCall 'h interaction

definition new_router :: "'h router" where
  "new_router = \<lparr>routes = [], fallback_handler = None\<rparr>"

text \<open>\<open>_register(pattern, handler, once)\<close>: the handler is checked first, then the pattern.\<close>

definition register :: "'h router \<Rightarrow> pattern \<Rightarrow> 'h callback \<Rightarrow> bool \<Rightarrow> 'h router outcome" where
  "register r pat cb once_flag =
     (case cb of
        NotCallable \<Rightarrow> Threw ROUTER_INVALID_PATTERN
      | Function h \<Rightarrow>
          (let push = (\<lambda>re. Returned (r\<lparr>routes := routes r @
                         [\<lparr>route_pattern = pat, route_compiled = re, route_handler = h,
                           route_once = once_flag\<rparr>]\<rparr>))
           in case pat of
                RegExpPattern re \<Rightarrow> push re
              | StringPattern p \<Rightarrow>
                  (case new_RegExp (if star \<in> set p then globSource p else exactSource p) of
                     Threw e \<Rightarrow> Threw e
                   | Returned re \<Rightarrow> push re)
              | OtherPattern \<Rightarrow> Threw ROUTER_INVALID_PATTERN))"

definition on :: "'h router \<Rightarrow> pattern \<Rightarrow> 'h callback \<Rightarrow> 'h router outcome" where
  "on r pat cb = register r pat cb False"

definition once :: "'h router \<Rightarrow> pattern \<Rightarrow> 'h callback \<Rightarrow> 'h router outcome" where
  "once r pat cb = register r pat cb True"

definition fallback :: "'h router \<Rightarrow> 'h \<Rightarrow> 'h router" where
  "fallback r h = r\<lparr>fallback_handler := Some h\<rparr>"

text \<open>
  \<open>params = match.groups ?? {}\<close>, then
  \<open>if (match[1] !== undefined && !params.wildcard) params.wildcard = match[1]\<close>.
  Reading a property that is absent gives \<open>undefined\<close>; \<open>undefined\<close> and the empty
  string are falsy. Assigning keeps the position of a key that exists and appends a new one.
\<close>

definition wildcard_key :: jsstring where
  "wildcard_key = js ''wildcard''"

definition get_prop :: "params \<Rightarrow> jsstring \<Rightarrow> jsstring option" where
  "get_prop ps k = (case map_of ps k of None \<Rightarrow> None | Some v \<Rightarrow> v)"

definition truthy :: "jsstring option \<Rightarrow> bool" where
  "truthy v = (case v of None \<Rightarrow> False | Some s \<Rightarrow> s \<noteq> [])"

definition match1 :: "jsmatch \<Rightarrow> jsstring option" where
  "match1 m = (case captures m of [] \<Rightarrow> None | c # _ \<Rightarrow> c)"

definition named_groups :: "jsmatch \<Rightarrow> params" where
  "named_groups m = (case groups m of None \<Rightarrow> [] | Some g \<Rightarrow> g)"

definition params_of :: "jsmatch \<Rightarrow> params" where
  "params_of m =
     (let ps = named_groups m
      in if match1 m \<noteq> None \<and> \<not> truthy (get_prop ps wildcard_key)
         then AList.update wildcard_key (match1 m) ps else ps)"

text \<open>
  \<open>handle(interaction)\<close>. The loop runs over the indices of \<open>_routes\<close>; at the first
  route whose expression matches, a single-shot route is spliced out, then the handler is
  awaited and the result is \<open>true\<close>. The model returns the result, the call that is
  awaited (if any) and the router as it is when that call is made.
\<close>

function handle_from ::
  "'h router \<Rightarrow> interaction \<Rightarrow> jsstring \<Rightarrow> nat \<Rightarrow> bool \<times> 'h call option \<times> 'h router" where
  "handle_from r ia cid i =
     (if i < length (routes r) then
        (let route = routes r ! i in
         case str_match cid (route_compiled route) of
           None \<Rightarrow> handle_from r ia cid (Suc i)
         | Some m \<Rightarrow>
             (True, Some (RouteCall (route_handler route) ia (params_of m)),
              if route_once route
              then r\<lparr>routes := take i (routes r) @ drop (Suc i) (routes r)\<rparr> else r))
      else
        (case fallback_handler r of
           Some f \<Rightarrow> (False, Some (FallbackCall f ia), r)
         | None \<Rightarrow> (False, None, r)))"
  by pat_completeness auto
termination
  by (relation "measure (\<lambda>(r, ia, cid, i). length (routes r) - i)") auto

declare handle_from.simps [simp del]

definition handle :: "'h router \<Rightarrow> interaction \<Rightarrow> bool \<times> 'h call option \<times> 'h router" where
  "handle r ia =
     (case customId ia of
        None \<Rightarrow> (False, None, r)
      | Some cid \<Rightarrow> if cid = [] then (False, None, r) else handle_from r ia cid 0)"

section \<open>CooldownManager\<close>

text \<open>
  The store is a \<open>Map<string, number>\<close>: entries in insertion order, one per key.
  \<open>Map.set\<close> keeps the place of a key that is present and appends a new one;
  \<open>Map.delete\<close> removes the key's entry. Instants and durations are integers
  (milliseconds). \<open>Date.now()\<close> counts the milliseconds since the epoch and is read as a
  natural number; every call of it is an argument of the model, in the order of the calls.
  The interval timer of the constructor only calls \<open>sweep\<close> from time to time; a sweep
  is a call of \<open>sweep\<close> here.
\<close>

type_synonym cooldown_store = "(jsstring \<times> int) list"

record cooldown_manager =
  store :: cooldown_store
  prefix :: jsstring

record cooldown_options =
  opt_store :: "cooldown_store option"
  opt_keyPrefix :: "jsstring option"

definition new_CooldownManager :: "cooldown_options \<Rightarrow> cooldown_manager" where
  "new_CooldownManager options =
     \<lparr>store = (case opt_store options of None \<Rightarrow> [] | Some m \<Rightarrow> m),
      prefix = (case opt_keyPrefix options of None \<Rightarrow> js ''forge:cd:'' | Some p \<Rightarrow> p)\<rparr>"

definition key_of :: "cooldown_manager \<Rightarrow> jsstring \<Rightarrow> jsstring \<Rightarrow> jsstring" where
  "key_of cm command entityId = prefix cm @ command @ js '':'' @ entityId"

definition store_get :: "cooldown_manager \<Rightarrow> jsstring \<Rightarrow> int option" where
  "store_get cm k = map_of (store cm) k"

definition store_set :: "cooldown_manager \<Rightarrow> jsstring \<Rightarrow> int \<Rightarrow> cooldown_manager" where
  "store_set cm k v = cm\<lparr>store := AList.update k v (store cm)\<rparr>"

definition store_delete :: "cooldown_manager \<Rightarrow> jsstring \<Rightarrow> cooldown_manager" where
  "store_delete cm k = cm\<lparr>store := AList.delete k (store cm)\<rparr>"

definition store_entries :: "cooldown_manager \<Rightarrow> (jsstring \<times> int) list" where
  "store_entries cm = store cm"

text \<open>
  \<open>check\<close>: \<open>if (!expiry || now >= expiry)\<close> the key is free; \<open>!expiry\<close> holds for a
  missing entry and for a stored 0. The result's \<open>remainingText\<close> is a rendering of
  \<open>remaining\<close> and is left out.
\<close>

record cooldown_result =
  onCooldown :: bool
  remaining :: int
  expiry :: "int option"

definition check :: "cooldown_manager \<Rightarrow> jsstring \<Rightarrow> jsstring \<Rightarrow> nat \<Rightarrow> cooldown_result" where
  "check cm command entityId now =
     (case store_get cm (key_of cm command entityId) of
        None \<Rightarrow> \<lparr>onCooldown = False, remaining = 0, expiry = None\<rparr>
      | Some e \<Rightarrow>
          if e = 0 \<or> int now \<ge> e
          then \<lparr>onCooldown = False, remaining = 0, expiry = None\<rparr>
          else \<lparr>onCooldown = True, remaining = e - int now, expiry = Some e\<rparr>)"

definition set_cooldown ::
  "cooldown_manager \<Rightarrow> jsstring \<Rightarrow> jsstring \<Rightarrow> int \<Rightarrow> nat \<Rightarrow> int outcome \<times> cooldown_manager" where
  "set_cooldown cm command entityId durationMs now =
     (if durationMs \<le> 0 then (Threw COOLDOWN_INVALID_DURATION, cm)
      else (let e = int now + durationMs
            in (Returned e, store_set cm (key_of cm command entityId) e)))"

text \<open>
  \<open>use\<close> reads the clock twice: \<open>now1\<close> in \<open>check\<close> and, when the key is free and the
  duration is accepted, \<open>now2\<close> in \<open>set\<close>.
\<close>

definition use ::
  "cooldown_manager \<Rightarrow> jsstring \<Rightarrow> jsstring \<Rightarrow> int \<Rightarrow> nat \<Rightarrow> nat
     \<Rightarrow> unit outcome \<times> cooldown_manager" where
  "use cm command entityId durationMs now1 now2 =
     (let result = check cm command entityId now1
      in if onCooldown result then (Threw (COOLDOWN_ACTIVE (remaining result)), cm)
         else (case set_cooldown cm command entityId durationMs now2 of
                 (Threw e, cm') \<Rightarrow> (Threw e, cm')
               | (Returned e, cm') \<Rightarrow> (Returned (), cm')))"

text \<open>
  \<open>sweep\<close> walks the entries and deletes each one with \<open>now >= expiry\<close>. Deleting the
  entry just visited does not disturb a \<open>Map\<close> iteration, so the walk sees the entries
  the store holds when \<open>sweep\<close> starts.
\<close>

fun sweep_loop ::
  "(jsstring \<times> int) list \<Rightarrow> nat \<Rightarrow> cooldown_manager \<Rightarrow> nat \<Rightarrow> nat \<times> cooldown_manager" where
  "sweep_loop [] now cm removed = (removed, cm)"
| "sweep_loop ((k, e) # rest) now cm removed =
     (if int now \<ge> e then sweep_loop rest now (store_delete cm k) (removed + 1)
      else sweep_loop rest now cm removed)"

definition sweep :: "cooldown_manager \<Rightarrow> nat \<Rightarrow> nat \<times> cooldown_manager" where
  "sweep cm now = sweep_loop (store_entries cm) now cm 0"

section \<open>Paginator\<close>

text \<open>
  A page is the caller's payload (type \<open>'p\<close>). The navigation row is kept with the
  identifier and the disabled flag of each button; labels and styles are configuration
  text. The message is what the client returned from \<open>reply\<close>; the model keeps the
  payload it shows.
\<close>

definition NAV_FIRST :: jsstring where "NAV_FIRST = js ''forge_page_first''"
definition NAV_PREV :: jsstring where "NAV_PREV = js ''forge_page_prev''"
definition NAV_NEXT :: jsstring where "NAV_NEXT = js ''forge_page_next''"
definition NAV_LAST :: jsstring where "NAV_LAST = js ''forge_page_last''"
definition NAV_STOP :: jsstring where "NAV_STOP = js ''forge_page_stop''"

record button =
  button_id :: jsstring
  disabled :: bool

record 'p payload =
  shown_page :: 'p
  nav_row :: "button list"
  payload_ephemeral :: "bool option"

record paginator_options =
  startPage :: "int option"
  opt_timeout :: "int option"
  showPageCount :: "bool option"
  opt_ephemeral :: "bool option"
  opt_showStop :: "bool option"
  opt_userId :: "jsstring option"

record 'p paginator =
  pages :: "'p list"
  current :: int
  timeout :: int
  showCount :: bool
  ephemeral :: bool
  showStop :: bool
  userId :: "jsstring option"
  collector_active :: "bool option"
  message :: "'p payload option"

definition or_default :: "'a option \<Rightarrow> 'a \<Rightarrow> 'a" where
  "or_default v d = (case v of None \<Rightarrow> d | Some x \<Rightarrow> x)"

text \<open>
  The constructor: \<open>if (!pages?.length) throw\<close>, then the fields, with
  \<open>this._current = options.startPage ?? 0\<close>. A missing \<open>pages\<close> argument is \<open>None\<close>.
\<close>

definition new_Paginator :: "'p list option \<Rightarrow> paginator_options \<Rightarrow> 'p paginator outcome" where
  "new_Paginator pgs options =
     (case pgs of
        None \<Rightarrow> Threw PAGINATOR_NO_PAGES
      | Some ps \<Rightarrow>
          if length ps = 0 then Threw PAGINATOR_NO_PAGES
          else Returned
            \<lparr>pages = ps,
             current = or_default (startPage options) 0,
             timeout = or_default (opt_timeout options) 120000,
             showCount = or_default (showPageCount options) True,
             ephemeral = or_default (opt_ephemeral options) False,
             showStop = or_default (opt_showStop options) True,
             userId = opt_userId options,
             collector_active = None,
             message = None\<rparr>)"

text \<open>
  \<open>_buildPayload\<close> reads \<open>this._pages[this._current]\<close>. Outside the array that is
  \<open>undefined\<close>, and \<open>page.components\<close> in the returned object throws a \<open>TypeError\<close>.
\<close>

definition buildPayload :: "'p paginator \<Rightarrow> 'p payload outcome" where
  "buildPayload pg =
     (let total = int (length (pages pg));
          isFirst = (current pg = 0);
          isLast = (current pg = total - 1);
          onlyOne = (total = 1)
      in if 0 \<le> current pg \<and> current pg < total then
           Returned
             \<lparr>shown_page = pages pg ! nat (current pg),
              nav_row =
                [\<lparr>button_id = NAV_FIRST, disabled = (isFirst \<or> onlyOne)\<rparr>,
                 \<lparr>button_id = NAV_PREV, disabled = (isFirst \<or> onlyOne)\<rparr>]
                @ (if showCount pg
                   then [\<lparr>button_id = js ''forge_page_count'', disabled = True\<rparr>] else [])
                @ [\<lparr>button_id = NAV_NEXT, disabled = (isLast \<or> onlyOne)\<rparr>,
                   \<lparr>button_id = NAV_LAST, disabled = (isLast \<or> onlyOne)\<rparr>]
                @ (if showStop pg then [\<lparr>button_id = NAV_STOP, disabled = False\<rparr>] else []),
              payload_ephemeral = Some (ephemeral pg)\<rparr>
         else Threw TypeError)"

text \<open>
  \<open>_update\<close>: build the payload, drop \<open>ephemeral\<close>, edit the message. With no message
  \<open>this._message.edit\<close> throws a \<open>TypeError\<close>; a failure of the edit itself is swallowed.
\<close>

definition update :: "'p paginator \<Rightarrow> unit outcome \<times> 'p paginator" where
  "update pg =
     (case buildPayload pg of
        Threw e \<Rightarrow> (Threw e, pg)
      | Returned pl \<Rightarrow>
          (case message pg of
             None \<Rightarrow> (Threw TypeError, pg)
           | Some m \<Rightarrow> (Returned (), pg\<lparr>message := Some (pl\<lparr>payload_ephemeral := None\<rparr>)\<rparr>)))"

definition goTo :: "'p paginator \<Rightarrow> int \<Rightarrow> unit outcome \<times> 'p paginator" where
  "goTo pg index =
     (if index < 0 \<or> index \<ge> int (length (pages pg)) then (Threw PAGINATOR_INVALID_PAGE, pg)
      else update (pg\<lparr>current := index\<rparr>))"

text \<open>
  \<open>reply\<close>: \<open>this._userId ??= interaction.user.id\<close>, build the payload, send it, start
  the collector on the message.
\<close>

definition reply :: "'p paginator \<Rightarrow> interaction \<Rightarrow> unit outcome \<times> 'p paginator" where
  "reply pg ia =
     (let pg1 = pg\<lparr>userId := (case userId pg of None \<Rightarrow> Some (user_id ia) | Some u \<Rightarrow> Some u)\<rparr>
      in case buildPayload pg1 of
           Threw e \<Rightarrow> (Threw e, pg1)
         | Returned pl \<Rightarrow> (Returned (), pg1\<lparr>message := Some pl, collector_active := Some True\<rparr>))"

text \<open>
  The collector's filter and its \<open>collect\<close> handler. \<open>!this._userId\<close> holds for
  \<open>null\<close> and for the empty string. The filter's notice to a user who is not allowed,
  and the edit that disables the buttons when the collector ends, change nothing in the
  paginator and are left out; the stop button ends the collector. The handler first awaits
  \<open>btn.deferUpdate()\<close>; \<open>on_collect\<close> is what it does once that call has completed
  (if the call rejects, the handler ends there and the paginator is unchanged).
\<close>

definition nav_filter :: "'p paginator \<Rightarrow> interaction \<Rightarrow> bool" where
  "nav_filter pg i =
     (let allowed = (case userId pg of None \<Rightarrow> True | Some u \<Rightarrow> u = [] \<or> user_id i = u)
      in allowed \<and> customId i \<in> Some ` set [NAV_FIRST, NAV_PREV, NAV_NEXT, NAV_LAST, NAV_STOP])"


section \<open>ConfirmationManager\<close>

text \<open>
  \<open>ask\<close> merges the caller's options over the manager's defaults; the model takes the
  merged object. The nonce (clock and random digits in the source) is an argument.
\<close>

record confirmation_options =
  cf_timeout :: int
  updateReply :: bool
  content :: "jsstring option"
  confirmedText :: jsstring
  cancelledText :: jsstring
  timedOutText :: jsstring

definition default_options :: confirmation_options where
  "default_options =
     \<lparr>cf_timeout = 30000, updateReply = True, content = None,
      confirmedText = 0x2705 # js '' Confirmed.'',
      cancelledText = 0x274C # js '' Cancelled.'',
      timedOutText = 0x23F3 # js '' Timed out.''\<rparr>"

text \<open>
  The session: the promise \<open>ask\<close> returns, the options \<open>ask\<close> gives to the collector
  it creates on the sent message (\<open>time\<close> and \<open>max: 1\<close>), and what the session shows.
  \<open>settled_by\<close> lists the calls of \<open>resolve\<close> and \<open>reject\<close> in the order they are
  made; a promise keeps the first settlement. \<open>notices\<close> lists the users who were sent
  the private notice.
\<close>

datatype end_reason = Limit | Time | OtherReason jsstring

record confirmation_session =
  owner :: jsstring
  yesId :: jsstring
  noId :: jsstring
  opts :: confirmation_options
  col_time :: int
  col_max :: "nat option"
  promise :: "bool outcome option"
  settled_by :: "bool outcome list"
  message_content :: "jsstring option"
  notices :: "jsstring list"

definition ask :: "confirmation_options \<Rightarrow> interaction \<Rightarrow> jsstring \<Rightarrow> confirmation_session" where
  "ask options ia nonce =
     \<lparr>owner = user_id ia,
      yesId = js ''forge_confirm_yes'' @ js ''_'' @ nonce,
      noId = js ''forge_confirm_no'' @ js ''_'' @ nonce,
      opts = options,
      col_time = cf_timeout options,
      col_max = Some 1,
      promise = None,
      settled_by = [],
      message_content = content options,
      notices = []\<rparr>"

definition settle :: "confirmation_session \<Rightarrow> bool outcome \<Rightarrow> confirmation_session" where
  "settle s v =
     s\<lparr>promise := (case promise s of None \<Rightarrow> Some v | Some x \<Rightarrow> Some x),
       settled_by := settled_by s @ [v]\<rparr>"

text \<open>
  The collector is the client library's object; which events it delivers, and when, is
  not modelled. The model has what the code hands to it: the filter and the two handlers.
  Each handler takes the results of the client calls it awaits: \<open>ack\<close> is the result of
  \<open>await btn.deferUpdate()\<close>, which the \<open>collect\<close> handler does not catch, and
  \<open>edit_ok\<close> says whether \<open>message.edit\<close> went through, whose failure the code
  swallows with \<open>.catch(() => {})\<close>.
\<close>

definition confirm_filter :: "confirmation_session \<Rightarrow> interaction \<Rightarrow> bool \<times> confirmation_session" where
  "confirm_filter s i =
     (let isOwner = (user_id i = owner s);
          s1 = (if \<not> isOwner then s\<lparr>notices := notices s @ [user_id i]\<rparr> else s)
      in (isOwner \<and> (customId i = Some (yesId s) \<or> customId i = Some (noId s)), s1))"

definition confirm_on_collect ::
  "confirmation_session \<Rightarrow> interaction \<Rightarrow> unit outcome \<Rightarrow> bool
     \<Rightarrow> unit outcome \<times> confirmation_session" where
  "confirm_on_collect s btn ack edit_ok =
     (case ack of
        Threw e \<Rightarrow> (Threw e, s)
      | Returned u \<Rightarrow>
          (let confirmed = (customId btn = Some (yesId s));
               s1 = (if updateReply (opts s) \<and> edit_ok
                     then s\<lparr>message_content :=
                              Some (if confirmed then confirmedText (opts s)
                                    else cancelledText (opts s))\<rparr>
                     else s)
           in (Returned (), settle s1 (Returned confirmed))))"

definition confirm_on_end :: "confirmation_session \<Rightarrow> end_reason \<Rightarrow> bool \<Rightarrow> confirmation_session" where
  "confirm_on_end s reason edit_ok =
     (if reason \<noteq> Limit then
        (let s1 = (if updateReply (opts s) \<and> edit_ok
                   then s\<lparr>message_content := Some (timedOutText (opts s))\<rparr> else s)
         in settle s1 (Threw CONFIRMATION_TIMED_OUT))
      else s)"

section \<open>Notions used to state the properties\<close>

text \<open>The atom a pattern character ends up as: a star as the group, any other as itself.\<close>

definition glob_atom :: "code_unit \<Rightarrow> re_atom" where
  "glob_atom c = (if c = star then DotPlusGroup else PatternChar c)"

text \<open>What \<open>.+\<close> can match: one or more code units, none of them a line terminator.\<close>

definition dot_run :: "jsstring \<Rightarrow> bool" where
  "dot_run w \<longleftrightarrow> w \<noteq> [] \<and> (\<forall>c \<in> set w. \<not> lineTerminator c)"

text \<open>
  The caller's expression \<^verbatim>\<open>/^(a)(?<wildcard>.*)$/\<close>: the letter \<open>a\<close> as the first
  group, then a named group that takes the rest of the input up to its end, which must
  hold no line terminator.
\<close>

definition rx_a_then_wildcard :: RegExp where
  "rx_a_then_wildcard =
     Native (\<lambda>s. case s of
                   [] \<Rightarrow> None
                 | c # rest \<Rightarrow>
                     if c = 0x61 \<and> (\<forall>x \<in> set rest. \<not> lineTerminator x)
                     then Some \<lparr>matched = s, captures = [Some [c], Some rest],
                                groups = Some [(wildcard_key, Some rest)]\<rparr>
                     else None)"

section \<open>Properties of the router\<close>

subsection \<open>The compiled expression of a string pattern\<close>


lemma escaped_chars_set:
  "set escaped_chars = {0x2E, 0x2B, 0x3F, 0x5E, 0x24, 0x7B, 0x7D, 0x28, 0x29, 0x7C, 0x5B, 0x5D, 0x5C}"
  by (simp add: escaped_chars_def js_def backslash_def insert_commute)

lemma syntax_chars_set: "set syntax_chars = insert star (set escaped_chars)"
  by (auto simp add: syntax_chars_def escaped_chars_def js_def backslash_def star_def)

lemma parse_re_piece:
  "parse_re ((if c = star then js ''(.+)'' else if c \<in> set escaped_chars then [backslash, c] else [c]) @ rest)
     = map_option (Cons (glob_atom c)) (parse_re rest)"
proof (cases "c = star")
  case True
  then show ?thesis by (simp add: js_def glob_atom_def backslash_def)
next
  case False
  note ns = this
  show ?thesis
  proof (cases "c \<in> set escaped_chars")
    case True
    then show ?thesis using ns
      by (simp add: glob_atom_def syntax_chars_set backslash_def)
  next
    case False
    then have "c \<notin> set syntax_chars" using ns by (simp add: syntax_chars_set)
    moreover from False have "c \<noteq> 0x5E" "c \<noteq> 0x24" "c \<noteq> backslash" "c \<noteq> 0x28"
      by (auto simp add: escaped_chars_set backslash_def)
    ultimately show ?thesis using ns False by (simp add: glob_atom_def)
  qed
qed

lemma replaceStars_escapeMeta:
  "replaceStars (escapeMeta p) =
     concat (map (\<lambda>c. if c = star then js ''(.+)'' else if c \<in> set escaped_chars then [backslash, c] else [c]) p)"
proof -
  have ne: "star \<notin> set escaped_chars" "backslash \<noteq> star"
    by (simp_all add: escaped_chars_set star_def backslash_def)
  show ?thesis
    by (induction p) (use ne in \<open>auto simp add: replaceStars_def escapeMeta_def\<close>)
qed

lemma parse_re_glob_body:
  "parse_re (replaceStars (escapeMeta p) @ rest) = map_option ((@) (map glob_atom p)) (parse_re rest)"
proof (induction p)
  case Nil
  show ?case by (simp add: replaceStars_def escapeMeta_def option.map_ident)
next
  case (Cons c p)
  have "replaceStars (escapeMeta (c # p)) @ rest =
        (if c = star then js ''(.+)'' else if c \<in> set escaped_chars then [backslash, c] else [c])
          @ (replaceStars (escapeMeta p) @ rest)"
    unfolding replaceStars_escapeMeta by simp
  then show ?case
    using Cons.IH by (simp only: parse_re_piece) (simp add: option.map_comp comp_def)
qed

lemma escapeMeta_no_star: "star \<notin> set p \<Longrightarrow> replaceStars (escapeMeta p) = escapeMeta p"
  unfolding replaceStars_escapeMeta
  by (induction p) (auto simp add: escapeMeta_def)

lemma parse_re_dollar: "parse_re (js ''$'') = Some [Eol]"
  by (simp add: js_def)

lemma new_RegExp_glob:
  "new_RegExp (globSource p) = Returned (Compiled (Bol # map glob_atom p @ [Eol]))"
  by (simp add: new_RegExp_def globSource_def parse_re_glob_body parse_re_dollar) (simp add: js_def parse_re_glob_body parse_re_dollar)

subsection \<open>What the compiled expression matches\<close>

lemma exec_atoms_Bol_pos: "0 < i \<Longrightarrow> exec_atoms (Bol # as) i s = None"
  by simp

lemma scan_Bol_pos: "0 < i \<Longrightarrow> scan (Bol # as) s i = None"
proof (induction "Suc (length s) - i" arbitrary: i)
  case 0
  then show ?case by (subst scan.simps) simp
next
  case (Suc n)
  from Suc.hyps(2) have "n = Suc (length s) - Suc i" by simp
  from Suc.hyps(1)[OF this] have "scan (Bol # as) s (Suc i) = None" by simp
  with Suc.prems show ?case by (subst scan.simps) simp
qed

lemma scan_Bol:
  "scan (Bol # as) s 0 =
     (case exec_atoms as 0 s of
        Some (caps, e) \<Rightarrow> Some \<lparr>matched = take e s, captures = map Some caps, groups = None\<rparr>
      | None \<Rightarrow> None)"
  by (subst scan.simps) (simp add: scan_Bol_pos split: option.splits)

lemma exec_atoms_chars:
  "exec_atoms (map PatternChar p @ as) i s =
     (if take (length p) s = p then exec_atoms as (i + length p) (drop (length p) s) else None)"
proof (induction p arbitrary: i s)
  case Nil
  show ?case by simp
next
  case (Cons c p)
  show ?case
  proof (cases s)
    case Nil
    then show ?thesis by simp
  next
    case (Cons d s')
    then show ?thesis using Cons.IH[of "Suc i" s'] by auto
  qed
qed

lemma exec_atoms_Eol: "exec_atoms [Eol] i s = (if s = [] then Some ([], i) else None)"
  by simp

lemma exec_atoms_tail:
  "exec_atoms (map PatternChar suf @ [Eol]) i s =
     (if s = suf then Some ([], i + length suf) else None)"
proof -
  have "take (length suf) s = suf \<and> drop (length suf) s = [] \<longleftrightarrow> s = suf"
    by (metis append_Nil2 append_take_drop_id drop_all order_refl take_all)
  then show ?thesis by (auto simp add: exec_atoms_chars)
qed

lemma le_length_takeWhile:
  "k \<le> length (takeWhile P s) \<longleftrightarrow> k \<le> length s \<and> (\<forall>c \<in> set (take k s). P c)"
proof (induction s arbitrary: k)
  case Nil
  show ?case by simp
next
  case (Cons a s)
  show ?case by (cases k) (auto simp add: Cons.IH)
qed

lemma greedy_tail:
  "greedy (\<lambda>j t. if t = suf then Some ([], j + length suf) else None) i s n =
     (if \<exists>k. 0 < k \<and> k \<le> n \<and> drop k s = suf
      then Some ([take (length s - length suf) s], i + length s) else None)"
  if "n \<le> length s"
  using that
proof (induction n)
  case 0
  show ?case by simp
next
  case (Suc n)
  show ?case
  proof (cases "drop (Suc n) s = suf")
    case True
    then have "length suf = length s - Suc n" by (metis length_drop)
    with Suc.prems True show ?thesis by auto
  next
    case False
    have "(\<exists>k. 0 < k \<and> k \<le> Suc n \<and> drop k s = suf) \<longleftrightarrow> (\<exists>k. 0 < k \<and> k \<le> n \<and> drop k s = suf)"
      using False by (metis le_SucE le_SucI)
    with False Suc show ?thesis by simp
  qed
qed


lemma exec_atoms_star_tail:
  "exec_atoms (DotPlusGroup # map PatternChar suf @ [Eol]) i s =
     (if \<exists>w. dot_run w \<and> s = w @ suf
      then Some ([take (length s - length suf) s], i + length s) else None)"
proof -
  let ?n = "length (takeWhile (\<lambda>c. \<not> lineTerminator c) s)"
  have n: "?n \<le> length s" by (rule length_takeWhile_le)
  have "(\<exists>k. 0 < k \<and> k \<le> ?n \<and> drop k s = suf) \<longleftrightarrow> (\<exists>w. dot_run w \<and> s = w @ suf)"
  proof
    assume "\<exists>k. 0 < k \<and> k \<le> ?n \<and> drop k s = suf"
    then obtain k where k: "0 < k" "k \<le> ?n" "drop k s = suf" by blast
    from k(2) have "k \<le> length s" "\<forall>c \<in> set (take k s). \<not> lineTerminator c"
      by (simp_all add: le_length_takeWhile)
    with k(1) have "dot_run (take k s)" by (auto simp add: dot_run_def)
    moreover have "s = take k s @ suf" using k(3) by (metis append_take_drop_id)
    ultimately show "\<exists>w. dot_run w \<and> s = w @ suf" by blast
  next
    assume "\<exists>w. dot_run w \<and> s = w @ suf"
    then obtain w where w: "dot_run w" "s = w @ suf" by blast
    then have "0 < length w" "length w \<le> ?n" "drop (length w) s = suf"
      by (auto simp add: dot_run_def le_length_takeWhile)
    then show "\<exists>k. 0 < k \<and> k \<le> ?n \<and> drop k s = suf" by blast
  qed
  then show ?thesis
    using greedy_tail[OF n, of suf i] by (simp add: exec_atoms_tail[abs_def])
qed

lemma map_glob_atom_no_star: "star \<notin> set p \<Longrightarrow> map glob_atom p = map PatternChar p"
  by (induction p) (auto simp add: glob_atom_def)

lemma scan_single_star:
  assumes "star \<notin> set pre" "star \<notin> set suf"
  shows "scan (Bol # map glob_atom (pre @ star # suf) @ [Eol]) s 0 =
     (if \<exists>w. dot_run w \<and> s = pre @ w @ suf
      then Some \<lparr>matched = s,
                 captures = [Some (take (length s - length pre - length suf) (drop (length pre) s))],
                 groups = None\<rparr>
      else None)"
proof -
  have atoms: "map glob_atom (pre @ star # suf) @ [Eol] =
      map PatternChar pre @ (DotPlusGroup # map PatternChar suf @ [Eol])"
    using assms by (simp add: map_glob_atom_no_star) (simp add: glob_atom_def)
  have iff: "(take (length pre) s = pre \<and> (\<exists>w. dot_run w \<and> drop (length pre) s = w @ suf))
      \<longleftrightarrow> (\<exists>w. dot_run w \<and> s = pre @ w @ suf)"
    by (metis append_eq_conv_conj append_take_drop_id)
  show ?thesis
  proof (cases "\<exists>w. dot_run w \<and> s = pre @ w @ suf")
    case True
    with iff have t: "take (length pre) s = pre" "\<exists>w. dot_run w \<and> drop (length pre) s = w @ suf"
      by blast+
    from True have len: "length pre \<le> length s" by auto
    show ?thesis
      using True t len unfolding atoms scan_Bol exec_atoms_chars exec_atoms_star_tail
      by simp
  next
    case False
    with iff have "\<not> (take (length pre) s = pre \<and> (\<exists>w. dot_run w \<and> drop (length pre) s = w @ suf))"
      by blast
    then show ?thesis
      using False unfolding atoms scan_Bol exec_atoms_chars exec_atoms_star_tail
      by auto
  qed
qed

lemma scan_exact:
  assumes "star \<notin> set p"
  shows "scan (Bol # map glob_atom p @ [Eol]) s 0 =
     (if s = p then Some \<lparr>matched = s, captures = [], groups = None\<rparr> else None)"
  using assms unfolding scan_Bol by (simp add: map_glob_atom_no_star exec_atoms_tail)

lemma register_string:
  "register r (StringPattern p) (Function h) o_flag =
     Returned (r\<lparr>routes := routes r @
        [\<lparr>route_pattern = StringPattern p,
          route_compiled = Compiled (Bol # map glob_atom p @ [Eol]),
          route_handler = h, route_once = o_flag\<rparr>]\<rparr>)"
proof (cases "star \<in> set p")
  case True
  then show ?thesis by (simp add: register_def new_RegExp_glob)
next
  case False
  then have "exactSource p = globSource p"
    by (simp add: exactSource_def globSource_def escapeMeta_no_star)
  with False show ?thesis by (simp add: register_def new_RegExp_glob)
qed

lemma handle_from_first:
  assumes "i \<le> j" "j < length (routes r)"
    and "str_match cid (route_compiled (routes r ! j)) = Some m"
    and "\<forall>k. i \<le> k \<and> k < j \<longrightarrow> str_match cid (route_compiled (routes r ! k)) = None"
  shows "handle_from r ia cid i =
     (True, Some (RouteCall (route_handler (routes r ! j)) ia (params_of m)),
      if route_once (routes r ! j)
      then r\<lparr>routes := take j (routes r) @ drop (Suc j) (routes r)\<rparr> else r)"
  using assms
proof (induction "j - i" arbitrary: i)
  case 0
  then have "i = j" by simp
  with 0 show ?case by (subst handle_from.simps) simp
next
  case (Suc n)
  then have lt: "i < j" and none: "str_match cid (route_compiled (routes r ! i)) = None"
    by auto
  have "handle_from r ia cid (Suc i) =
     (True, Some (RouteCall (route_handler (routes r ! j)) ia (params_of m)),
      if route_once (routes r ! j)
      then r\<lparr>routes := take j (routes r) @ drop (Suc j) (routes r)\<rparr> else r)"
    using Suc.hyps(2) Suc.prems lt by (intro Suc.hyps(1)) auto
  with lt none Suc.prems(2) show ?case by (subst handle_from.simps) simp
qed

lemma handle_from_none:
  assumes "\<forall>k. i \<le> k \<and> k < length (routes r) \<longrightarrow> str_match cid (route_compiled (routes r ! k)) = None"
  shows "handle_from r ia cid i =
     (case fallback_handler r of
        Some f \<Rightarrow> (False, Some (FallbackCall f ia), r)
      | None \<Rightarrow> (False, None, r))"
  using assms
proof (induction "length (routes r) - i" arbitrary: i)
  case 0
  then show ?case by (subst handle_from.simps) simp
next
  case (Suc n)
  then have lt: "i < length (routes r)" and none: "str_match cid (route_compiled (routes r ! i)) = None"
    by auto
  have "handle_from r ia cid (Suc i) =
     (case fallback_handler r of
        Some f \<Rightarrow> (False, Some (FallbackCall f ia), r)
      | None \<Rightarrow> (False, None, r))"
    using Suc.hyps(2) Suc.prems by (intro Suc.hyps(1)) auto
  with lt none show ?case by (subst handle_from.simps) simp
qed

subsection \<open>Dispatch\<close>

lemmas js_eval = js_def star_def backslash_def wildcard_key_def lineTerminator_def glob_atom_def

lemmas handle_eval = handle_def handle_from.simps scan_Bol params_of_def named_groups_def
  match1_def get_prop_def truthy_def

lemma nth_without:
  "j < length xs \<Longrightarrow> (take j xs @ drop (Suc j) xs) ! l = (if l < j then xs ! l else xs ! Suc l)"
  by (simp add: nth_append min_def)

lemma length_without: "j < length xs \<Longrightarrow> length (take j xs @ drop (Suc j) xs) = length xs - 1"
  by simp

lemma register_appends:
  "register r pat (Function h) fl = Returned r' \<Longrightarrow>
     \<exists>re. r' = r\<lparr>routes := routes r @
        [\<lparr>route_pattern = pat, route_compiled = re, route_handler = h, route_once = fl\<rparr>]\<rparr>"
  by (auto simp add: register_def Let_def split: pattern.splits outcome.splits)

lemma page_star_then_page_1:
  "\<exists>r1 r2. on new_router (StringPattern (js ''page_*'')) (Function h1) = Returned r1 \<and>
      on r1 (StringPattern (js ''page_1'')) (Function h2) = Returned r2 \<and>
      handle r2 \<lparr>customId = Some (js ''page_1''), user_id = u\<rparr> =
        (True, Some (RouteCall h1 \<lparr>customId = Some (js ''page_1''), user_id = u\<rparr>
                       [(wildcard_key, Some (js ''1''))]), r2)"
  unfolding on_def register_string
  by (simp add: new_router_def handle_eval js_eval)

lemma page_1_then_page_star:
  "\<exists>r1 r2. on new_router (StringPattern (js ''page_1'')) (Function h2) = Returned r1 \<and>
      on r1 (StringPattern (js ''page_*'')) (Function h1) = Returned r2 \<and>
      handle r2 \<lparr>customId = Some (js ''page_1''), user_id = u\<rparr> =
        (True, Some (RouteCall h2 \<lparr>customId = Some (js ''page_1''), user_id = u\<rparr> []), r2)"
  unfolding on_def register_string
  by (simp add: new_router_def handle_eval js_eval)

text \<open>
  C1. For every router and every identifier that is not empty, \<open>handle\<close> goes through
  the routes in the order of the list and awaits the handler of the first route whose
  expression matches, with the parameters of that match; registration appends to the
  list, so the list order is the registration order. Registering \<open>page_*\<close> and then
  \<open>page_1\<close> sends \<open>page_1\<close> to the handler of the wildcard route, and the reverse order
  sends it to the handler of the exact route.
\<close>

theorem handle_first_match_wins:
  "(customId ia = Some cid \<and> cid \<noteq> [] \<and> j < length (routes r) \<and>
      str_match cid (route_compiled (routes r ! j)) = Some m \<and>
      (\<forall>k<j. str_match cid (route_compiled (routes r ! k)) = None)
     \<longrightarrow> handle r ia =
          (True, Some (RouteCall (route_handler (routes r ! j)) ia (params_of m)),
           if route_once (routes r ! j)
           then r\<lparr>routes := take j (routes r) @ drop (Suc j) (routes r)\<rparr> else r))
   \<and> (register r pat (Function h) fl = Returned r' \<longrightarrow>
        (\<exists>re. routes r' = routes r @
           [\<lparr>route_pattern = pat, route_compiled = re, route_handler = h, route_once = fl\<rparr>]))
   \<and> (\<exists>r1 r2. on new_router (StringPattern (js ''page_*'')) (Function h1) = Returned r1 \<and>
        on r1 (StringPattern (js ''page_1'')) (Function h2) = Returned r2 \<and>
        handle r2 \<lparr>customId = Some (js ''page_1''), user_id = u\<rparr> =
          (True, Some (RouteCall h1 \<lparr>customId = Some (js ''page_1''), user_id = u\<rparr>
                         [(wildcard_key, Some (js ''1''))]), r2))
   \<and> (\<exists>r1 r2. on new_router (StringPattern (js ''page_1'')) (Function h2) = Returned r1 \<and>
        on r1 (StringPattern (js ''page_*'')) (Function h1) = Returned r2 \<and>
        handle r2 \<lparr>customId = Some (js ''page_1''), user_id = u\<rparr> =
          (True, Some (RouteCall h2 \<lparr>customId = Some (js ''page_1''), user_id = u\<rparr> []), r2))"
proof (intro conjI impI)
  assume a: "customId ia = Some cid \<and> cid \<noteq> [] \<and> j < length (routes r) \<and>
      str_match cid (route_compiled (routes r ! j)) = Some m \<and>
      (\<forall>k<j. str_match cid (route_compiled (routes r ! k)) = None)"
  then have "handle r ia = handle_from r ia cid 0" by (simp add: handle_def)
  also have "\<dots> = (True, Some (RouteCall (route_handler (routes r ! j)) ia (params_of m)),
           if route_once (routes r ! j)
           then r\<lparr>routes := take j (routes r) @ drop (Suc j) (routes r)\<rparr> else r)"
    using a by (intro handle_from_first) auto
  finally show "handle r ia =
          (True, Some (RouteCall (route_handler (routes r ! j)) ia (params_of m)),
           if route_once (routes r ! j)
           then r\<lparr>routes := take j (routes r) @ drop (Suc j) (routes r)\<rparr> else r)" .
next
  assume "register r pat (Function h) fl = Returned r'"
  from register_appends[OF this]
  show "\<exists>re. routes r' = routes r @
           [\<lparr>route_pattern = pat, route_compiled = re, route_handler = h, route_once = fl\<rparr>]"
    by auto
next
  show "\<exists>r1 r2. on new_router (StringPattern (js ''page_*'')) (Function h1) = Returned r1 \<and>
        on r1 (StringPattern (js ''page_1'')) (Function h2) = Returned r2 \<and>
        handle r2 \<lparr>customId = Some (js ''page_1''), user_id = u\<rparr> =
          (True, Some (RouteCall h1 \<lparr>customId = Some (js ''page_1''), user_id = u\<rparr>
                         [(wildcard_key, Some (js ''1''))]), r2)"
    by (rule page_star_then_page_1)
next
  show "\<exists>r1 r2. on new_router (StringPattern (js ''page_1'')) (Function h2) = Returned r1 \<and>
        on r1 (StringPattern (js ''page_*'')) (Function h1) = Returned r2 \<and>
        handle r2 \<lparr>customId = Some (js ''page_1''), user_id = u\<rparr> =
          (True, Some (RouteCall h2 \<lparr>customId = Some (js ''page_1''), user_id = u\<rparr> []), r2)"
    by (rule page_1_then_page_star)
qed

theorem handle_first_match_wins_witness:
  "str_match (js ''page_1'') (Compiled (Bol # map glob_atom (js ''page_*'') @ [Eol])) =
     Some \<lparr>matched = js ''page_1'', captures = [Some (js ''1'')], groups = None\<rparr>
   \<and> handle
       \<lparr>routes =
          [\<lparr>route_pattern = StringPattern (js ''page_*''),
            route_compiled = Compiled (Bol # map glob_atom (js ''page_*'') @ [Eol]),
            route_handler = (1::nat), route_once = False\<rparr>,
           \<lparr>route_pattern = StringPattern (js ''page_1''),
            route_compiled = Compiled (Bol # map glob_atom (js ''page_1'') @ [Eol]),
            route_handler = 2, route_once = False\<rparr>],
        fallback_handler = None\<rparr>
       \<lparr>customId = Some (js ''page_1''), user_id = js ''u1''\<rparr>
     = (True,
        Some (RouteCall 1 \<lparr>customId = Some (js ''page_1''), user_id = js ''u1''\<rparr>
                [(wildcard_key, Some (js ''1''))]),
        \<lparr>routes =
          [\<lparr>route_pattern = StringPattern (js ''page_*''),
            route_compiled = Compiled (Bol # map glob_atom (js ''page_*'') @ [Eol]),
            route_handler = 1, route_once = False\<rparr>,
           \<lparr>route_pattern = StringPattern (js ''page_1''),
            route_compiled = Compiled (Bol # map glob_atom (js ''page_1'') @ [Eol]),
            route_handler = 2, route_once = False\<rparr>],
        fallback_handler = None\<rparr>)
   \<and> register (new_router :: nat router) (StringPattern (js ''page_*'')) (Function 1) False =
       Returned \<lparr>routes =
          [\<lparr>route_pattern = StringPattern (js ''page_*''),
            route_compiled = Compiled (Bol # map glob_atom (js ''page_*'') @ [Eol]),
            route_handler = 1, route_once = False\<rparr>], fallback_handler = None\<rparr>
   \<and> (\<exists>re. routes \<lparr>routes =
          [\<lparr>route_pattern = StringPattern (js ''page_*''),
            route_compiled = Compiled (Bol # map glob_atom (js ''page_*'') @ [Eol]),
            route_handler = (1::nat), route_once = False\<rparr>], fallback_handler = None\<rparr>
        = routes (new_router :: nat router) @
            [\<lparr>route_pattern = StringPattern (js ''page_*''), route_compiled = re,
              route_handler = 1, route_once = False\<rparr>])"
proof -
  let ?re = "Compiled (Bol # map glob_atom (js ''page_*'') @ [Eol])"
  let ?r1 = "\<lparr>routes =
          [\<lparr>route_pattern = StringPattern (js ''page_*''), route_compiled = ?re,
            route_handler = (1::nat), route_once = False\<rparr>], fallback_handler = None\<rparr>"
  have reg: "register (new_router :: nat router) (StringPattern (js ''page_*'')) (Function 1) False =
       Returned ?r1"
    by (simp add: register_string new_router_def)
  have app: "\<exists>re. routes ?r1 = routes (new_router :: nat router) @
            [\<lparr>route_pattern = StringPattern (js ''page_*''), route_compiled = re,
              route_handler = 1, route_once = False\<rparr>]"
    by (rule handle_first_match_wins[where r = "new_router :: nat router"
          and pat = "StringPattern (js ''page_*'')" and h = 1 and fl = False and r' = "?r1",
          THEN conjunct2, THEN conjunct1, THEN mp, OF reg])
  let ?m = "\<lparr>matched = js ''page_1'', captures = [Some (js ''1'')], groups = None\<rparr>"
  let ?r = "\<lparr>routes =
          [\<lparr>route_pattern = StringPattern (js ''page_*''), route_compiled = ?re,
            route_handler = (1::nat), route_once = False\<rparr>,
           \<lparr>route_pattern = StringPattern (js ''page_1''),
            route_compiled = Compiled (Bol # map glob_atom (js ''page_1'') @ [Eol]),
            route_handler = 2, route_once = False\<rparr>],
        fallback_handler = None\<rparr>"
  let ?ia = "\<lparr>customId = Some (js ''page_1''), user_id = js ''u1''\<rparr>"
  have m: "str_match (js ''page_1'') ?re = Some ?m"
    by (simp add: scan_Bol js_eval)
  have p: "params_of ?m = [(wildcard_key, Some (js ''1''))]"
    by (simp add: params_of_def named_groups_def match1_def get_prop_def truthy_def)
  have prem: "customId ?ia = Some (js ''page_1'') \<and> js ''page_1'' \<noteq> [] \<and> 0 < length (routes ?r) \<and>
      str_match (js ''page_1'') (route_compiled (routes ?r ! 0)) = Some ?m \<and>
      (\<forall>k<0. str_match (js ''page_1'') (route_compiled (routes ?r ! k)) = None)"
    using m by (simp add: js_def)
  have "handle ?r ?ia =
          (True, Some (RouteCall (route_handler (routes ?r ! 0)) ?ia (params_of ?m)),
           if route_once (routes ?r ! 0)
           then ?r\<lparr>routes := take 0 (routes ?r) @ drop (Suc 0) (routes ?r)\<rparr> else ?r)"
    by (rule handle_first_match_wins[where ia = "?ia" and cid = "js ''page_1''" and j = 0
          and r = "?r" and m = "?m", THEN conjunct1, THEN mp, OF prem])
  then have "handle ?r ?ia = (True, Some (RouteCall 1 ?ia [(wildcard_key, Some (js ''1''))]), ?r)"
    using p by simp
  with m reg app show ?thesis by blast
qed

subsection \<open>Wildcard patterns\<close>

lemma str_match_single_star_hit:
  assumes "star \<notin> set pre" "star \<notin> set suf" "dot_run w"
  shows "str_match (pre @ w @ suf) (Compiled (Bol # map glob_atom (pre @ star # suf) @ [Eol])) =
     Some \<lparr>matched = pre @ w @ suf, captures = [Some w], groups = None\<rparr>"
proof -
  have ex: "\<exists>w'. dot_run w' \<and> pre @ w @ suf = pre @ w' @ suf"
    using assms(3) by blast
  have "scan (Bol # map glob_atom (pre @ star # suf) @ [Eol]) (pre @ w @ suf) 0 =
      Some \<lparr>matched = pre @ w @ suf,
            captures = [Some (take (length (pre @ w @ suf) - length pre - length suf)
                               (drop (length pre) (pre @ w @ suf)))],
            groups = None\<rparr>"
    unfolding scan_single_star[OF assms(1,2)] using ex by (rule if_P)
  then show ?thesis by (simp only: str_match.simps) simp
qed

lemma str_match_single_star_miss:
  assumes "star \<notin> set pre" "star \<notin> set suf" "\<not> (\<exists>w. dot_run w \<and> s = pre @ w @ suf)"
  shows "str_match s (Compiled (Bol # map glob_atom (pre @ star # suf) @ [Eol])) = None"
  unfolding str_match.simps scan_single_star[OF assms(1,2)] using assms(3) by (rule if_not_P)

lemma a_star_b_route:
  "\<exists>r. on new_router (StringPattern (js ''a_*_b'')) (Function h) = Returned r \<and>
      handle r \<lparr>customId = Some (js ''a_X_b''), user_id = u\<rparr> =
        (True, Some (RouteCall h \<lparr>customId = Some (js ''a_X_b''), user_id = u\<rparr>
                       [(wildcard_key, Some (js ''X''))]), r) \<and>
      handle r \<lparr>customId = Some (js ''a__b''), user_id = u\<rparr> = (False, None, r) \<and>
      handle r \<lparr>customId = Some (js ''a_b''), user_id = u\<rparr> = (False, None, r)"
  unfolding on_def register_string
  by (simp add: new_router_def handle_eval js_eval)

lemma two_stars_greedy:
  "str_match (js ''a_b_c'') (Compiled (Bol # map glob_atom (js ''*_*'') @ [Eol])) =
     Some \<lparr>matched = js ''a_b_c'', captures = [Some (js ''a_b''), Some (js ''c'')], groups = None\<rparr>"
  by (simp add: scan_Bol js_eval)

text \<open>
  C2. A string pattern that contains a star is compiled to the anchored expression in
  which every star is the group \<open>(.+)\<close> and every other character stands for itself.
  With one star, the expression matches exactly the inputs made of the text before the
  star, one or more code units without a line terminator, and the text after the star,
  and the capture is that middle part; with two stars the first group takes as much as it
  can. For the route \<open>a_*_b\<close>: \<open>a_X_b\<close> matches and the handler gets \<open>wildcard = X\<close>,
  while \<open>a__b\<close> and \<open>a_b\<close> do not match.
\<close>

theorem glob_pattern_semantics:
  "(star \<in> set p \<longrightarrow>
      register r (StringPattern p) (Function h) fl =
        Returned (r\<lparr>routes := routes r @
          [\<lparr>route_pattern = StringPattern p,
            route_compiled = Compiled (Bol # map glob_atom p @ [Eol]),
            route_handler = h, route_once = fl\<rparr>]\<rparr>))
   \<and> (star \<notin> set pre \<and> star \<notin> set suf \<and> dot_run w \<longrightarrow>
        str_match (pre @ w @ suf) (Compiled (Bol # map glob_atom (pre @ star # suf) @ [Eol])) =
          Some \<lparr>matched = pre @ w @ suf, captures = [Some w], groups = None\<rparr>)
   \<and> (star \<notin> set pre \<and> star \<notin> set suf \<and> \<not> (\<exists>w. dot_run w \<and> s = pre @ w @ suf) \<longrightarrow>
        str_match s (Compiled (Bol # map glob_atom (pre @ star # suf) @ [Eol])) = None)
   \<and> str_match (js ''a_b_c'') (Compiled (Bol # map glob_atom (js ''*_*'') @ [Eol])) =
        Some \<lparr>matched = js ''a_b_c'', captures = [Some (js ''a_b''), Some (js ''c'')],
              groups = None\<rparr>
   \<and> (\<exists>r1. on new_router (StringPattern (js ''a_*_b'')) (Function h) = Returned r1 \<and>
        handle r1 \<lparr>customId = Some (js ''a_X_b''), user_id = u\<rparr> =
          (True, Some (RouteCall h \<lparr>customId = Some (js ''a_X_b''), user_id = u\<rparr>
                         [(wildcard_key, Some (js ''X''))]), r1) \<and>
        handle r1 \<lparr>customId = Some (js ''a__b''), user_id = u\<rparr> = (False, None, r1) \<and>
        handle r1 \<lparr>customId = Some (js ''a_b''), user_id = u\<rparr> = (False, None, r1))"
  using register_string[of r p h fl] str_match_single_star_hit[of pre suf w]
    str_match_single_star_miss[of pre suf s] two_stars_greedy a_star_b_route[of h u]
  by blast

theorem glob_pattern_semantics_witness:
  "star \<in> set (js ''a_*_b'') \<and> star \<notin> set (js ''a_'') \<and> star \<notin> set (js ''_b'') \<and>
   dot_run (js ''X'') \<and> \<not> (\<exists>w. dot_run w \<and> js ''a__b'' = js ''a_'' @ w @ js ''_b'') \<and>
   register (new_router :: nat router) (StringPattern (js ''a_*_b'')) (Function 7) False =
     Returned \<lparr>routes =
          [\<lparr>route_pattern = StringPattern (js ''a_*_b''),
            route_compiled = Compiled (Bol # map glob_atom (js ''a_*_b'') @ [Eol]),
            route_handler = 7, route_once = False\<rparr>], fallback_handler = None\<rparr> \<and>
   str_match (js ''a_X_b'') (Compiled (Bol # map glob_atom (js ''a_*_b'') @ [Eol])) =
     Some \<lparr>matched = js ''a_X_b'', captures = [Some (js ''X'')], groups = None\<rparr> \<and>
   str_match (js ''a__b'') (Compiled (Bol # map glob_atom (js ''a_*_b'') @ [Eol])) = None"
proof -
  have h1: "star \<in> set (js ''a_*_b'')" and h2: "star \<notin> set (js ''a_'')"
    and h3: "star \<notin> set (js ''_b'')" and h4: "dot_run (js ''X'')"
    by (simp_all add: js_eval dot_run_def)
  have h5: "\<not> (\<exists>w. dot_run w \<and> js ''a__b'' = js ''a_'' @ w @ js ''_b'')"
    by (auto simp add: js_def dot_run_def append_eq_Cons_conv Cons_eq_append_conv)
  have e1: "js ''a_*_b'' = js ''a_'' @ star # js ''_b''" and e2: "js ''a_X_b'' = js ''a_'' @ js ''X'' @ js ''_b''"
    by (simp_all add: js_eval)
  note t = glob_pattern_semantics[where p = "js ''a_*_b''" and r = "new_router :: nat router"
      and h = 7 and fl = False and pre = "js ''a_''" and suf = "js ''_b''" and w = "js ''X''"
      and s = "js ''a__b''"]
  from t[THEN conjunct1, THEN mp, OF h1]
  have r: "register (new_router :: nat router) (StringPattern (js ''a_*_b'')) (Function 7) False =
     Returned \<lparr>routes =
          [\<lparr>route_pattern = StringPattern (js ''a_*_b''),
            route_compiled = Compiled (Bol # map glob_atom (js ''a_*_b'') @ [Eol]),
            route_handler = 7, route_once = False\<rparr>], fallback_handler = None\<rparr>"
    by (simp add: new_router_def)
  from t[THEN conjunct2, THEN conjunct1, THEN mp] h2 h3 h4
  have m1: "str_match (js ''a_X_b'') (Compiled (Bol # map glob_atom (js ''a_*_b'') @ [Eol])) =
     Some \<lparr>matched = js ''a_X_b'', captures = [Some (js ''X'')], groups = None\<rparr>"
    unfolding e1 e2 by blast
  from t[THEN conjunct2, THEN conjunct2, THEN conjunct1, THEN mp] h2 h3 h5
  have m2: "str_match (js ''a__b'') (Compiled (Bol # map glob_atom (js ''a_*_b'') @ [Eol])) = None"
    unfolding e1 by blast
  from h1 h2 h3 h4 h5 r m1 m2 show ?thesis by blast
qed

subsection \<open>Single-shot routes\<close>

text \<open>
  C6. When the first matching route was registered with \<open>once\<close>, \<open>handle\<close> awaits its
  handler with the route already taken out of the list (the other routes keep their
  order, the fallback stays). A second dispatch of the same identifier on the router left
  behind goes to the first later route that matches, and to the fallback when no later
  route matches.
\<close>

theorem once_route_fires_once:
  assumes "customId ia = Some cid" and "cid \<noteq> []" and "j < length (routes r)"
    and "str_match cid (route_compiled (routes r ! j)) = Some m"
    and "\<forall>k<j. str_match cid (route_compiled (routes r ! k)) = None"
    and "route_once (routes r ! j)"
  shows "(once r0 pat (Function h0) = Returned r1 \<longrightarrow>
           (\<exists>re. routes r1 = routes r0 @
              [\<lparr>route_pattern = pat, route_compiled = re, route_handler = h0,
                route_once = True\<rparr>]))
     \<and> (\<exists>r'. handle r ia =
            (True, Some (RouteCall (route_handler (routes r ! j)) ia (params_of m)), r')
     \<and> routes r' = take j (routes r) @ drop (Suc j) (routes r)
     \<and> fallback_handler r' = fallback_handler r
     \<and> ((\<forall>k. j < k \<and> k < length (routes r) \<longrightarrow>
             str_match cid (route_compiled (routes r ! k)) = None) \<longrightarrow>
          handle r' ia =
            (case fallback_handler r of
               Some f \<Rightarrow> (False, Some (FallbackCall f ia), r')
             | None \<Rightarrow> (False, None, r')))
     \<and> (\<forall>k m'. j < k \<and> k < length (routes r) \<and>
             str_match cid (route_compiled (routes r ! k)) = Some m' \<and>
             (\<forall>l. j < l \<and> l < k \<longrightarrow> str_match cid (route_compiled (routes r ! l)) = None) \<longrightarrow>
          fst (handle r' ia) = True \<and>
          fst (snd (handle r' ia)) =
            Some (RouteCall (route_handler (routes r ! k)) ia (params_of m'))))"
proof -
  have reg: "\<exists>re. routes r1 = routes r0 @
              [\<lparr>route_pattern = pat, route_compiled = re, route_handler = h0,
                route_once = True\<rparr>]"
    if "once r0 pat (Function h0) = Returned r1"
    using register_appends[of r0 pat h0 True r1] that by (auto simp add: once_def)
  define r' where "r' = r\<lparr>routes := take j (routes r) @ drop (Suc j) (routes r)\<rparr>"
  have rts: "routes r' = take j (routes r) @ drop (Suc j) (routes r)"
    and fb: "fallback_handler r' = fallback_handler r"
    by (simp_all add: r'_def)
  have nth': "\<And>l. routes r' ! l = (if l < j then routes r ! l else routes r ! Suc l)"
    using assms(3) by (simp add: rts nth_without)
  have len': "length (routes r') = length (routes r) - 1"
    using assms(3) by (simp add: rts)
  have first: "handle r ia =
      (True, Some (RouteCall (route_handler (routes r ! j)) ia (params_of m)), r')"
  proof -
    have "handle r ia = handle_from r ia cid 0"
      using assms(1,2) by (simp add: handle_def)
    also have "\<dots> = (True, Some (RouteCall (route_handler (routes r ! j)) ia (params_of m)),
           if route_once (routes r ! j)
           then r\<lparr>routes := take j (routes r) @ drop (Suc j) (routes r)\<rparr> else r)"
      using assms(3,4,5) by (intro handle_from_first) auto
    finally show ?thesis using assms(6) by (simp add: r'_def)
  qed
  have second: "handle r' ia = handle_from r' ia cid 0"
    using assms(1,2) by (simp add: handle_def)
  have none: "handle r' ia =
            (case fallback_handler r of
               Some f \<Rightarrow> (False, Some (FallbackCall f ia), r')
             | None \<Rightarrow> (False, None, r'))"
    if later: "\<forall>k. j < k \<and> k < length (routes r) \<longrightarrow>
             str_match cid (route_compiled (routes r ! k)) = None"
  proof -
    have "\<forall>k. 0 \<le> k \<and> k < length (routes r') \<longrightarrow>
        str_match cid (route_compiled (routes r' ! k)) = None"
      using later assms(5) len' by (auto simp add: nth')
    from handle_from_none[OF this, of ia] show ?thesis
      by (simp add: second fb)
  qed
  have some: "fst (handle r' ia) = True \<and>
          fst (snd (handle r' ia)) =
            Some (RouteCall (route_handler (routes r ! k)) ia (params_of m'))"
    if k: "j < k \<and> k < length (routes r) \<and>
             str_match cid (route_compiled (routes r ! k)) = Some m' \<and>
             (\<forall>l. j < l \<and> l < k \<longrightarrow> str_match cid (route_compiled (routes r ! l)) = None)"
    for k m'
  proof -
    from k obtain k0 where k0: "k = Suc k0" "j \<le> k0" by (cases k) auto
    from k k0 have "Suc k0 < length (routes r)" by blast
    then have k0len: "k0 < length (routes r')" by (simp add: len')
    have at: "routes r' ! k0 = routes r ! k" using k0 by (simp add: nth')
    have before: "\<forall>l. 0 \<le> l \<and> l < k0 \<longrightarrow> str_match cid (route_compiled (routes r' ! l)) = None"
      using k k0 assms(5) by (auto simp add: nth')
    have "handle_from r' ia cid 0 =
       (True, Some (RouteCall (route_handler (routes r' ! k0)) ia (params_of m')),
        if route_once (routes r' ! k0)
        then r'\<lparr>routes := take k0 (routes r') @ drop (Suc k0) (routes r')\<rparr> else r')"
      using k0len before k by (intro handle_from_first) (simp_all add: at)
    then show ?thesis by (simp add: second at)
  qed
  from first rts fb none some
  have "\<exists>r'. handle r ia =
            (True, Some (RouteCall (route_handler (routes r ! j)) ia (params_of m)), r')
     \<and> routes r' = take j (routes r) @ drop (Suc j) (routes r)
     \<and> fallback_handler r' = fallback_handler r
     \<and> ((\<forall>k. j < k \<and> k < length (routes r) \<longrightarrow>
             str_match cid (route_compiled (routes r ! k)) = None) \<longrightarrow>
          handle r' ia =
            (case fallback_handler r of
               Some f \<Rightarrow> (False, Some (FallbackCall f ia), r')
             | None \<Rightarrow> (False, None, r')))
     \<and> (\<forall>k m'. j < k \<and> k < length (routes r) \<and>
             str_match cid (route_compiled (routes r ! k)) = Some m' \<and>
             (\<forall>l. j < l \<and> l < k \<longrightarrow> str_match cid (route_compiled (routes r ! l)) = None) \<longrightarrow>
          fst (handle r' ia) = True \<and>
          fst (snd (handle r' ia)) =
            Some (RouteCall (route_handler (routes r ! k)) ia (params_of m')))"
    by blast
  with reg show ?thesis by blast
qed

theorem once_route_fires_once_witness:
  "handle
     \<lparr>routes =
        [\<lparr>route_pattern = StringPattern (js ''go''),
          route_compiled = Compiled (Bol # map glob_atom (js ''go'') @ [Eol]),
          route_handler = (1::nat), route_once = True\<rparr>,
         \<lparr>route_pattern = StringPattern (js ''g*''),
          route_compiled = Compiled (Bol # map glob_atom (js ''g*'') @ [Eol]),
          route_handler = 2, route_once = False\<rparr>],
      fallback_handler = Some 9\<rparr>
     \<lparr>customId = Some (js ''go''), user_id = js ''u1''\<rparr>
   = (True, Some (RouteCall 1 \<lparr>customId = Some (js ''go''), user_id = js ''u1''\<rparr> []),
      \<lparr>routes =
        [\<lparr>route_pattern = StringPattern (js ''g*''),
          route_compiled = Compiled (Bol # map glob_atom (js ''g*'') @ [Eol]),
          route_handler = 2, route_once = False\<rparr>],
      fallback_handler = Some 9\<rparr>)
   \<and> fst (snd (handle
       \<lparr>routes =
        [\<lparr>route_pattern = StringPattern (js ''g*''),
          route_compiled = Compiled (Bol # map glob_atom (js ''g*'') @ [Eol]),
          route_handler = (2::nat), route_once = False\<rparr>],
        fallback_handler = Some 9\<rparr>
       \<lparr>customId = Some (js ''go''), user_id = js ''u1''\<rparr>))
     = Some (RouteCall 2 \<lparr>customId = Some (js ''go''), user_id = js ''u1''\<rparr>
              [(wildcard_key, Some (js ''o''))])
   \<and> once (new_router :: nat router) (StringPattern (js ''go'')) (Function 1) =
       Returned \<lparr>routes =
          [\<lparr>route_pattern = StringPattern (js ''go''),
            route_compiled = Compiled (Bol # map glob_atom (js ''go'') @ [Eol]),
            route_handler = 1, route_once = True\<rparr>], fallback_handler = None\<rparr>
   \<and> handle
       \<lparr>routes =
          [\<lparr>route_pattern = StringPattern (js ''go''),
            route_compiled = Compiled (Bol # map glob_atom (js ''go'') @ [Eol]),
            route_handler = (1::nat), route_once = True\<rparr>],
        fallback_handler = Some 9\<rparr>
       \<lparr>customId = Some (js ''go''), user_id = js ''u1''\<rparr>
     = (True, Some (RouteCall 1 \<lparr>customId = Some (js ''go''), user_id = js ''u1''\<rparr> []),
        \<lparr>routes = [], fallback_handler = Some 9\<rparr>)
   \<and> handle \<lparr>routes = [], fallback_handler = Some (9::nat)\<rparr>
       \<lparr>customId = Some (js ''go''), user_id = js ''u1''\<rparr>
     = (False, Some (FallbackCall 9 \<lparr>customId = Some (js ''go''), user_id = js ''u1''\<rparr>),
        \<lparr>routes = [], fallback_handler = Some 9\<rparr>)"
proof -
  let ?rt1 = "\<lparr>route_pattern = StringPattern (js ''go''),
          route_compiled = Compiled (Bol # map glob_atom (js ''go'') @ [Eol]),
          route_handler = (1::nat), route_once = True\<rparr>"
  let ?rt2 = "\<lparr>route_pattern = StringPattern (js ''g*''),
          route_compiled = Compiled (Bol # map glob_atom (js ''g*'') @ [Eol]),
          route_handler = (2::nat), route_once = False\<rparr>"
  let ?r = "\<lparr>routes = [?rt1, ?rt2], fallback_handler = Some 9\<rparr>"
  let ?ia = "\<lparr>customId = Some (js ''go''), user_id = js ''u1''\<rparr>"
  let ?m = "\<lparr>matched = js ''go'', captures = [], groups = None\<rparr>"
  let ?m' = "\<lparr>matched = js ''go'', captures = [Some (js ''o'')], groups = None\<rparr>"
  have a1: "customId ?ia = Some (js ''go'')" and a2: "js ''go'' \<noteq> []"
    and a3: "0 < length (routes ?r)" and a6: "route_once (routes ?r ! 0)"
    by (simp_all add: js_def)
  have a4: "str_match (js ''go'') (route_compiled (routes ?r ! 0)) = Some ?m"
    by (simp add: scan_Bol js_eval)
  have a5: "\<forall>k<0. str_match (js ''go'') (route_compiled (routes ?r ! k)) = None"
    by simp
  have b: "str_match (js ''go'') (route_compiled (routes ?r ! 1)) = Some ?m'"
    by (simp add: scan_Bol js_eval)
  have pm: "params_of ?m = []" and pm': "params_of ?m' = [(wildcard_key, Some (js ''o''))]"
    by (simp_all add: params_of_def named_groups_def match1_def get_prop_def truthy_def)
  from once_route_fires_once[OF a1 a2 a3 a4 a5 a6, THEN conjunct2]
  obtain r' where r': "handle ?r ?ia =
            (True, Some (RouteCall (route_handler (routes ?r ! 0)) ?ia (params_of ?m)), r')"
    "routes r' = take 0 (routes ?r) @ drop (Suc 0) (routes ?r)"
    "fallback_handler r' = fallback_handler ?r"
    "\<forall>k m'. 0 < k \<and> k < length (routes ?r) \<and>
             str_match (js ''go'') (route_compiled (routes ?r ! k)) = Some m' \<and>
             (\<forall>l. 0 < l \<and> l < k \<longrightarrow> str_match (js ''go'') (route_compiled (routes ?r ! l)) = None) \<longrightarrow>
          fst (handle r' ?ia) = True \<and>
          fst (snd (handle r' ?ia)) =
            Some (RouteCall (route_handler (routes ?r ! k)) ?ia (params_of m'))"
    by blast
  have eq: "r' = \<lparr>routes = [?rt2], fallback_handler = Some 9\<rparr>"
    using r'(2,3) by (cases r') simp
  have "fst (snd (handle r' ?ia)) = Some (RouteCall (route_handler (routes ?r ! 1)) ?ia (params_of ?m'))"
    using r'(4)[rule_format, of 1 ?m'] b by simp
  with r'(1) have part1: "handle ?r ?ia =
        (True, Some (RouteCall 1 ?ia []), \<lparr>routes = [?rt2], fallback_handler = Some 9\<rparr>)
      \<and> fst (snd (handle \<lparr>routes = [?rt2], fallback_handler = Some 9\<rparr> ?ia)) =
          Some (RouteCall 2 ?ia [(wildcard_key, Some (js ''o''))])"
    unfolding eq by (simp add: pm pm')
  let ?q = "\<lparr>routes = [?rt1], fallback_handler = Some 9\<rparr>"
  let ?qn = "\<lparr>routes = [?rt1], fallback_handler = None\<rparr>"
  have reg: "once (new_router :: nat router) (StringPattern (js ''go'')) (Function 1) = Returned ?qn"
    by (simp add: once_def register_string new_router_def)
  have q4: "str_match (js ''go'') (route_compiled (routes ?q ! 0)) = Some ?m"
    by (simp add: scan_Bol js_eval)
  have q: "customId ?ia = Some (js ''go'')" "js ''go'' \<noteq> []" "0 < length (routes ?q)"
    "\<forall>k<0. str_match (js ''go'') (route_compiled (routes ?q ! k)) = None"
    "route_once (routes ?q ! 0)"
    by (simp_all add: js_def)
  note t = once_route_fires_once[OF q(1,2,3) q4 q(4,5)]
  from t[where ?r0.0 = "new_router :: nat router" and pat = "StringPattern (js ''go'')"
      and ?h0.0 = 1 and ?r1.0 = "?qn", THEN conjunct1, THEN mp, OF reg]
  have "\<exists>re. routes ?qn = routes (new_router :: nat router) @
       [\<lparr>route_pattern = StringPattern (js ''go''), route_compiled = re, route_handler = 1,
         route_once = True\<rparr>]" .
  from t[THEN conjunct2]
  obtain q' where q': "handle ?q ?ia =
            (True, Some (RouteCall (route_handler (routes ?q ! 0)) ?ia (params_of ?m)), q')"
    "routes q' = take 0 (routes ?q) @ drop (Suc 0) (routes ?q)"
    "fallback_handler q' = fallback_handler ?q"
    "(\<forall>k. 0 < k \<and> k < length (routes ?q) \<longrightarrow>
             str_match (js ''go'') (route_compiled (routes ?q ! k)) = None) \<longrightarrow>
          handle q' ?ia =
            (case fallback_handler ?q of
               Some f \<Rightarrow> (False, Some (FallbackCall f ?ia), q')
             | None \<Rightarrow> (False, None, q'))"
    by blast
  have eq': "q' = \<lparr>routes = [], fallback_handler = Some 9\<rparr>"
    using q'(2,3) by (cases q') simp
  from q'(4) have "handle q' ?ia = (False, Some (FallbackCall 9 ?ia), q')" by simp
  with q'(1) have part2: "handle ?q ?ia =
        (True, Some (RouteCall 1 ?ia []), \<lparr>routes = [], fallback_handler = Some 9\<rparr>)
      \<and> handle \<lparr>routes = [], fallback_handler = Some (9::nat)\<rparr> ?ia =
        (False, Some (FallbackCall 9 ?ia), \<lparr>routes = [], fallback_handler = Some 9\<rparr>)"
    unfolding eq' by (simp add: pm)
  from part1 reg part2 show ?thesis by blast
qed

subsection \<open>The result of a dispatch\<close>

text \<open>
  C9. An interaction without an identifier (absent or empty) is ignored: the result is
  \<open>false\<close>, nothing is called and the router is unchanged. When no route matches, the
  result is \<open>false\<close>; the fallback is called if there is one, and nothing happens if
  there is none. When some route matches, the result is \<open>true\<close> and a route handler is
  called.
\<close>

theorem handle_result:
  "(customId ia = None \<or> customId ia = Some [] \<longrightarrow> handle r ia = (False, None, r))
   \<and> (customId ia = Some cid \<and> cid \<noteq> [] \<and>
        (\<forall>k<length (routes r). str_match cid (route_compiled (routes r ! k)) = None) \<and>
        fallback_handler r = Some f
        \<longrightarrow> handle r ia = (False, Some (FallbackCall f ia), r))
   \<and> (customId ia = Some cid \<and> cid \<noteq> [] \<and>
        (\<forall>k<length (routes r). str_match cid (route_compiled (routes r ! k)) = None) \<and>
        fallback_handler r = None
        \<longrightarrow> handle r ia = (False, None, r))
   \<and> (customId ia = Some cid \<and> cid \<noteq> [] \<and>
        (\<exists>k<length (routes r). str_match cid (route_compiled (routes r ! k)) \<noteq> None)
        \<longrightarrow> fst (handle r ia) = True \<and>
            (\<exists>rt ps. rt \<in> set (routes r) \<and>
               fst (snd (handle r ia)) = Some (RouteCall (route_handler rt) ia ps)))"
proof -
  have ignored: "handle r ia = (False, None, r)"
    if "customId ia = None \<or> customId ia = Some []"
    using that by (auto simp add: handle_def)
  have to_fallback: "handle r ia = (False, Some (FallbackCall f ia), r)"
    if a: "customId ia = Some cid \<and> cid \<noteq> [] \<and>
        (\<forall>k<length (routes r). str_match cid (route_compiled (routes r ! k)) = None) \<and>
        fallback_handler r = Some f"
  proof -
    from a have "handle_from r ia cid 0 = (False, Some (FallbackCall f ia), r)"
      by (subst handle_from_none) auto
    with a show ?thesis by (simp add: handle_def)
  qed
  have unrouted: "handle r ia = (False, None, r)"
    if a: "customId ia = Some cid \<and> cid \<noteq> [] \<and>
        (\<forall>k<length (routes r). str_match cid (route_compiled (routes r ! k)) = None) \<and>
        fallback_handler r = None"
  proof -
    from a have "handle_from r ia cid 0 = (False, None, r)"
      by (subst handle_from_none) auto
    with a show ?thesis by (simp add: handle_def)
  qed
  have routed: "fst (handle r ia) = True \<and>
            (\<exists>rt ps. rt \<in> set (routes r) \<and>
               fst (snd (handle r ia)) = Some (RouteCall (route_handler rt) ia ps))"
    if a: "customId ia = Some cid \<and> cid \<noteq> [] \<and>
        (\<exists>k<length (routes r). str_match cid (route_compiled (routes r ! k)) \<noteq> None)"
  proof -
  define P where "P k \<longleftrightarrow> k < length (routes r) \<and>
      str_match cid (route_compiled (routes r ! k)) \<noteq> None" for k
  define j where "j = (LEAST k. P k)"
  from a have "\<exists>k. P k" by (auto simp add: P_def)
  then have Pj: "P j" unfolding j_def by (rule LeastI_ex)
  have least: "\<And>k. k < j \<Longrightarrow> \<not> P k" unfolding j_def by (rule not_less_Least)
  from Pj obtain m where m: "j < length (routes r)"
      "str_match cid (route_compiled (routes r ! j)) = Some m"
    by (auto simp add: P_def)
  have before: "\<forall>k. 0 \<le> k \<and> k < j \<longrightarrow> str_match cid (route_compiled (routes r ! k)) = None"
    using least m(1) by (auto simp add: P_def)
  have "handle_from r ia cid 0 =
     (True, Some (RouteCall (route_handler (routes r ! j)) ia (params_of m)),
      if route_once (routes r ! j)
      then r\<lparr>routes := take j (routes r) @ drop (Suc j) (routes r)\<rparr> else r)"
    using m before by (intro handle_from_first) auto
  with a have h: "handle r ia =
     (True, Some (RouteCall (route_handler (routes r ! j)) ia (params_of m)),
      if route_once (routes r ! j)
      then r\<lparr>routes := take j (routes r) @ drop (Suc j) (routes r)\<rparr> else r)"
    by (simp add: handle_def)
    have "routes r ! j \<in> set (routes r)" using m(1) by simp
    with h show ?thesis by auto
  qed
  from ignored to_fallback unrouted routed show ?thesis by blast
qed

theorem handle_result_witness:
  "handle \<lparr>routes = [], fallback_handler = Some (5::nat)\<rparr>
       \<lparr>customId = None, user_id = js ''u1''\<rparr>
     = (False, None, \<lparr>routes = [], fallback_handler = Some 5\<rparr>)
   \<and> handle
       \<lparr>routes =
          [\<lparr>route_pattern = StringPattern (js ''open_ticket''),
            route_compiled = Compiled (Bol # map glob_atom (js ''open_ticket'') @ [Eol]),
            route_handler = (1::nat), route_once = False\<rparr>],
        fallback_handler = Some 5\<rparr>
       \<lparr>customId = Some (js ''unknown_action''), user_id = js ''u1''\<rparr>
     = (False, Some (FallbackCall 5 \<lparr>customId = Some (js ''unknown_action''), user_id = js ''u1''\<rparr>),
        \<lparr>routes =
          [\<lparr>route_pattern = StringPattern (js ''open_ticket''),
            route_compiled = Compiled (Bol # map glob_atom (js ''open_ticket'') @ [Eol]),
            route_handler = 1, route_once = False\<rparr>],
        fallback_handler = Some 5\<rparr>)
   \<and> handle
       \<lparr>routes =
          [\<lparr>route_pattern = StringPattern (js ''open_ticket''),
            route_compiled = Compiled (Bol # map glob_atom (js ''open_ticket'') @ [Eol]),
            route_handler = (1::nat), route_once = False\<rparr>],
        fallback_handler = None\<rparr>
       \<lparr>customId = Some (js ''unknown_action''), user_id = js ''u1''\<rparr>
     = (False, None,
        \<lparr>routes =
          [\<lparr>route_pattern = StringPattern (js ''open_ticket''),
            route_compiled = Compiled (Bol # map glob_atom (js ''open_ticket'') @ [Eol]),
            route_handler = 1, route_once = False\<rparr>],
        fallback_handler = None\<rparr>)
   \<and> fst (handle
       \<lparr>routes =
          [\<lparr>route_pattern = StringPattern (js ''open_ticket''),
            route_compiled = Compiled (Bol # map glob_atom (js ''open_ticket'') @ [Eol]),
            route_handler = (1::nat), route_once = False\<rparr>],
        fallback_handler = Some 5\<rparr>
       \<lparr>customId = Some (js ''open_ticket''), user_id = js ''u1''\<rparr>) = True"
proof -
  let ?rt = "\<lparr>route_pattern = StringPattern (js ''open_ticket''),
            route_compiled = Compiled (Bol # map glob_atom (js ''open_ticket'') @ [Eol]),
            route_handler = (1::nat), route_once = False\<rparr>"
  let ?r0 = "\<lparr>routes = [], fallback_handler = Some (5::nat)\<rparr>"
  let ?r1 = "\<lparr>routes = [?rt], fallback_handler = Some (5::nat)\<rparr>"
  let ?r2 = "\<lparr>routes = [?rt], fallback_handler = None\<rparr>"
  let ?none = "\<lparr>customId = None, user_id = js ''u1''\<rparr>"
  let ?unk = "\<lparr>customId = Some (js ''unknown_action''), user_id = js ''u1''\<rparr>"
  let ?tick = "\<lparr>customId = Some (js ''open_ticket''), user_id = js ''u1''\<rparr>"
  have miss: "str_match (js ''unknown_action'') (route_compiled ?rt) = None"
    by (simp add: scan_Bol js_eval)
  have hit: "str_match (js ''open_ticket'') (route_compiled ?rt) \<noteq> None"
    by (simp add: scan_Bol js_eval)
  have ne: "js ''unknown_action'' \<noteq> []" "js ''open_ticket'' \<noteq> []"
    by (simp_all add: js_def)
  have c1: "handle ?r0 ?none = (False, None, ?r0)"
    by (rule handle_result[where ia = "?none" and r = "?r0", THEN conjunct1, THEN mp]) simp
  have c2: "handle ?r1 ?unk = (False, Some (FallbackCall 5 ?unk), ?r1)"
    by (rule handle_result[where ia = "?unk" and r = "?r1" and cid = "js ''unknown_action''"
          and f = 5, THEN conjunct2, THEN conjunct1, THEN mp])
       (use miss ne in simp)
  have c3: "handle ?r2 ?unk = (False, None, ?r2)"
    by (rule handle_result[where ia = "?unk" and r = "?r2" and cid = "js ''unknown_action''",
          THEN conjunct2, THEN conjunct2, THEN conjunct1, THEN mp])
       (use miss ne in simp)
  have c4: "fst (handle ?r1 ?tick) = True"
    using handle_result[where ia = "?tick" and r = "?r1" and cid = "js ''open_ticket''",
          THEN conjunct2, THEN conjunct2, THEN conjunct2, THEN mp] hit ne
    by simp
  from c1 c2 c3 c4 show ?thesis by blast
qed

subsection \<open>The \<open>wildcard\<close> parameter\<close>

lemma update_absent: "k \<notin> fst ` set al \<Longrightarrow> AList.update k v al = al @ [(k, v)]"
  by (induction al) auto

lemma params_of_adds:
  "match1 m = Some t \<Longrightarrow> wildcard_key \<notin> fst ` set (named_groups m) \<Longrightarrow>
     params_of m = named_groups m @ [(wildcard_key, Some t)]"
proof -
  assume t: "match1 m = Some t" and k: "wildcard_key \<notin> fst ` set (named_groups m)"
  from k have "map_of (named_groups m) wildcard_key = None"
    by (simp add: map_of_eq_None_iff)
  with t k show ?thesis
    by (simp add: params_of_def Let_def get_prop_def truthy_def update_absent)
qed

lemma params_of_keeps:
  "map_of (named_groups m) wildcard_key = Some (Some v) \<Longrightarrow> v \<noteq> [] \<Longrightarrow>
     params_of m = named_groups m"
  by (simp add: params_of_def Let_def get_prop_def truthy_def)

lemma params_of_overwrites:
  "match1 m = Some t \<Longrightarrow>
   map_of (named_groups m) wildcard_key = Some None \<or>
   map_of (named_groups m) wildcard_key = Some (Some []) \<Longrightarrow>
     params_of m = AList.update wildcard_key (Some t) (named_groups m)"
  by (auto simp add: params_of_def Let_def get_prop_def truthy_def)

lemma params_of_no_capture: "match1 m = None \<Longrightarrow> params_of m = named_groups m"
  by (simp add: params_of_def Let_def)

text \<open>
  C10, as the code has it. A route registered with the caller's own expression uses that
  expression as it is, and its handler gets \<open>params_of\<close> of the match. If the first
  positional capture is defined and the named groups have no key \<open>wildcard\<close>, the
  capture is added under that key. A named group \<open>wildcard\<close> that captured a text which
  is not empty is kept. A named group \<open>wildcard\<close> that captured the empty text, or took
  no part in the match, is replaced by the first positional capture.
\<close>

theorem wildcard_param_rule:
  "register r (RegExpPattern re) (Function h) fl =
     Returned (r\<lparr>routes := routes r @
       [\<lparr>route_pattern = RegExpPattern re, route_compiled = re, route_handler = h,
         route_once = fl\<rparr>]\<rparr>)
   \<and> (customId ia = Some cid \<and> cid \<noteq> [] \<and> j < length (routes r) \<and>
        route_compiled (routes r ! j) = Native f \<and> f cid = Some m \<and>
        (\<forall>k<j. str_match cid (route_compiled (routes r ! k)) = None)
        \<longrightarrow> fst (snd (handle r ia)) =
              Some (RouteCall (route_handler (routes r ! j)) ia (params_of m)))
   \<and> (match1 m = Some t \<and> wildcard_key \<notin> fst ` set (named_groups m)
        \<longrightarrow> params_of m = named_groups m @ [(wildcard_key, Some t)])
   \<and> (map_of (named_groups m) wildcard_key = Some (Some v) \<and> v \<noteq> []
        \<longrightarrow> params_of m = named_groups m)
   \<and> (match1 m = Some t \<and>
        (map_of (named_groups m) wildcard_key = Some None \<or>
         map_of (named_groups m) wildcard_key = Some (Some []))
        \<longrightarrow> params_of m = AList.update wildcard_key (Some t) (named_groups m))"
proof (intro conjI impI)
  show "register r (RegExpPattern re) (Function h) fl =
     Returned (r\<lparr>routes := routes r @
       [\<lparr>route_pattern = RegExpPattern re, route_compiled = re, route_handler = h,
         route_once = fl\<rparr>]\<rparr>)"
    by (simp add: register_def)
next
  assume a: "customId ia = Some cid \<and> cid \<noteq> [] \<and> j < length (routes r) \<and>
        route_compiled (routes r ! j) = Native f \<and> f cid = Some m \<and>
        (\<forall>k<j. str_match cid (route_compiled (routes r ! k)) = None)"
  then have "handle_from r ia cid 0 =
     (True, Some (RouteCall (route_handler (routes r ! j)) ia (params_of m)),
      if route_once (routes r ! j)
      then r\<lparr>routes := take j (routes r) @ drop (Suc j) (routes r)\<rparr> else r)"
    by (intro handle_from_first) auto
  with a show "fst (snd (handle r ia)) =
              Some (RouteCall (route_handler (routes r ! j)) ia (params_of m))"
    by (simp add: handle_def)
next
  assume "match1 m = Some t \<and> wildcard_key \<notin> fst ` set (named_groups m)"
  then show "params_of m = named_groups m @ [(wildcard_key, Some t)]"
    by (simp add: params_of_adds)
next
  assume "map_of (named_groups m) wildcard_key = Some (Some v) \<and> v \<noteq> []"
  then show "params_of m = named_groups m"
    by (simp add: params_of_keeps)
next
  assume "match1 m = Some t \<and>
        (map_of (named_groups m) wildcard_key = Some None \<or>
         map_of (named_groups m) wildcard_key = Some (Some []))"
  then show "params_of m = AList.update wildcard_key (Some t) (named_groups m)"
    using params_of_overwrites[of m t] by blast
qed

theorem wildcard_param_rule_witness:
  "fst (snd (handle
      \<lparr>routes =
         [\<lparr>route_pattern = RegExpPattern rx_a_then_wildcard,
           route_compiled = rx_a_then_wildcard, route_handler = (1::nat), route_once = False\<rparr>],
       fallback_handler = None\<rparr>
      \<lparr>customId = Some (js ''ab''), user_id = js ''u1''\<rparr>))
     = Some (RouteCall 1 \<lparr>customId = Some (js ''ab''), user_id = js ''u1''\<rparr>
               [(wildcard_key, Some (js ''b''))])
   \<and> params_of \<lparr>matched = js ''ban_42'', captures = [Some (js ''42'')],
                 groups = Some [(js ''userId'', Some (js ''42''))]\<rparr>
       = [(js ''userId'', Some (js ''42'')), (wildcard_key, Some (js ''42''))]
   \<and> params_of \<lparr>matched = js ''ab'', captures = [Some (js ''a''), Some (js ''b'')],
                 groups = Some [(wildcard_key, Some (js ''b''))]\<rparr>
       = [(wildcard_key, Some (js ''b''))]
   \<and> params_of \<lparr>matched = js ''a'', captures = [Some (js ''a''), Some []],
                 groups = Some [(wildcard_key, Some [])]\<rparr>
       = [(wildcard_key, Some (js ''a''))]"
proof -
  let ?rt = "\<lparr>route_pattern = RegExpPattern rx_a_then_wildcard,
           route_compiled = rx_a_then_wildcard, route_handler = (1::nat), route_once = False\<rparr>"
  let ?r = "\<lparr>routes = [?rt], fallback_handler = None\<rparr>"
  let ?ia = "\<lparr>customId = Some (js ''ab''), user_id = js ''u1''\<rparr>"
  let ?f = "\<lambda>s. case s of
                   [] \<Rightarrow> None
                 | c # rest \<Rightarrow>
                     if c = 0x61 \<and> (\<forall>x \<in> set rest. \<not> lineTerminator x)
                     then Some \<lparr>matched = s, captures = [Some [c], Some rest],
                                groups = Some [(wildcard_key, Some rest)]\<rparr>
                     else None"
  let ?m1 = "\<lparr>matched = js ''ab'', captures = [Some (js ''a''), Some (js ''b'')],
                 groups = Some [(wildcard_key, Some (js ''b''))]\<rparr>"
  let ?m2 = "\<lparr>matched = js ''ban_42'', captures = [Some (js ''42'')],
                 groups = Some [(js ''userId'', Some (js ''42''))]\<rparr>"
  let ?m3 = "\<lparr>matched = js ''a'', captures = [Some (js ''a''), Some []],
                 groups = Some [(wildcard_key, Some [])]\<rparr>"
  have hyp1: "customId ?ia = Some (js ''ab'') \<and> js ''ab'' \<noteq> [] \<and> 0 < length (routes ?r) \<and>
        route_compiled (routes ?r ! 0) = Native ?f \<and> ?f (js ''ab'') = Some ?m1 \<and>
        (\<forall>k<0. str_match (js ''ab'') (route_compiled (routes ?r ! k)) = None)"
    by (simp add: rx_a_then_wildcard_def js_def lineTerminator_def)
  have hyp2: "match1 ?m2 = Some (js ''42'') \<and> wildcard_key \<notin> fst ` set (named_groups ?m2)"
    by (simp add: match1_def named_groups_def wildcard_key_def js_def)
  have hyp3: "map_of (named_groups ?m1) wildcard_key = Some (Some (js ''b'')) \<and> js ''b'' \<noteq> []"
    by (simp add: named_groups_def js_def)
  have hyp4: "match1 ?m3 = Some (js ''a'') \<and>
        (map_of (named_groups ?m3) wildcard_key = Some None \<or>
         map_of (named_groups ?m3) wildcard_key = Some (Some []))"
    by (simp add: match1_def named_groups_def)
  have c1: "fst (snd (handle ?r ?ia)) =
              Some (RouteCall (route_handler (routes ?r ! 0)) ?ia (params_of ?m1))"
    by (rule wildcard_param_rule[where ia = "?ia" and cid = "js ''ab''" and j = 0 and r = "?r"
          and f = "?f" and m = "?m1", THEN conjunct2, THEN conjunct1, THEN mp, OF hyp1])
  have c2: "params_of ?m2 = named_groups ?m2 @ [(wildcard_key, Some (js ''42''))]"
    by (rule wildcard_param_rule[where m = "?m2" and t = "js ''42''" and r = "?r",
          THEN conjunct2, THEN conjunct2, THEN conjunct1, THEN mp, OF hyp2])
  have c3: "params_of ?m1 = named_groups ?m1"
    by (rule wildcard_param_rule[where m = "?m1" and v = "js ''b''" and r = "?r",
          THEN conjunct2, THEN conjunct2, THEN conjunct2, THEN conjunct1, THEN mp, OF hyp3])
  have c4: "params_of ?m3 = AList.update wildcard_key (Some (js ''a'')) (named_groups ?m3)"
    by (rule wildcard_param_rule[where m = "?m3" and t = "js ''a''" and r = "?r",
          THEN conjunct2, THEN conjunct2, THEN conjunct2, THEN conjunct2, THEN mp, OF hyp4])
  from c1 c3 have "fst (snd (handle ?r ?ia)) = Some (RouteCall 1 ?ia [(wildcard_key, Some (js ''b''))])"
    by (simp add: named_groups_def)
  moreover from c2 have "params_of ?m2 = [(js ''userId'', Some (js ''42'')), (wildcard_key, Some (js ''42''))]"
    by (simp add: named_groups_def)
  moreover from c3 have "params_of ?m1 = [(wildcard_key, Some (js ''b''))]"
    by (simp add: named_groups_def)
  moreover from c4 have "params_of ?m3 = [(wildcard_key, Some (js ''a''))]"
    by (simp add: named_groups_def)
  ultimately show ?thesis by blast
qed

text \<open>
  C10 as first stated says that a named group \<open>wildcard\<close> is never overwritten. That
  fails on \<^verbatim>\<open>/^(a)(?<wildcard>.*)$/\<close> and the identifier \<open>a\<close>: the named group
  \<open>wildcard\<close> is there and holds the empty text, and the handler is given
  \<open>wildcard = a\<close>, the first positional capture.
\<close>

theorem wildcard_named_group_overwritten:
  "str_match (js ''a'') rx_a_then_wildcard =
     Some \<lparr>matched = js ''a'', captures = [Some (js ''a''), Some []],
           groups = Some [(wildcard_key, Some [])]\<rparr>
   \<and> handle
       \<lparr>routes =
          [\<lparr>route_pattern = RegExpPattern rx_a_then_wildcard,
            route_compiled = rx_a_then_wildcard, route_handler = (1::nat), route_once = False\<rparr>],
        fallback_handler = None\<rparr>
       \<lparr>customId = Some (js ''a''), user_id = js ''u1''\<rparr>
     = (True,
        Some (RouteCall 1 \<lparr>customId = Some (js ''a''), user_id = js ''u1''\<rparr>
                [(wildcard_key, Some (js ''a''))]),
        \<lparr>routes =
          [\<lparr>route_pattern = RegExpPattern rx_a_then_wildcard,
            route_compiled = rx_a_then_wildcard, route_handler = 1, route_once = False\<rparr>],
        fallback_handler = None\<rparr>)"
proof -
  have m: "str_match (js ''a'') rx_a_then_wildcard =
     Some \<lparr>matched = js ''a'', captures = [Some (js ''a''), Some []],
           groups = Some [(wildcard_key, Some [])]\<rparr>"
    by (simp add: rx_a_then_wildcard_def js_def)
  have ne: "js ''a'' \<noteq> []" by (simp add: js_def)
  show ?thesis
    using m ne
    by (simp add: handle_def handle_from.simps params_of_def named_groups_def match1_def
          get_prop_def truthy_def)
qed

section \<open>Properties of the cooldown manager\<close>

lemma store_get_store_set:
  "store_get (store_set cm k v) k' = (if k' = k then Some v else store_get cm k')"
  by (simp add: store_get_def store_set_def update_conv')

lemma key_of_store_set [simp]: "key_of (store_set cm k v) command entityId = key_of cm command entityId"
  by (simp add: key_of_def store_set_def)

lemma onCooldown_iff:
  "onCooldown (check cm command entityId now) \<longleftrightarrow>
     (\<exists>e. store_get cm (key_of cm command entityId) = Some e \<and> int now < e)"
  by (auto simp add: check_def split: option.splits)

lemma remaining_check:
  "store_get cm (key_of cm command entityId) = Some e \<Longrightarrow> int now < e \<Longrightarrow>
     remaining (check cm command entityId now) = e - int now"
  by (auto simp add: check_def)

lemma use_active:
  "store_get cm (key_of cm command entityId) = Some e \<Longrightarrow> int now1 < e \<Longrightarrow>
     use cm command entityId d now1 now2 = (Threw (COOLDOWN_ACTIVE (e - int now1)), cm)"
  by (auto simp add: use_def Let_def check_def)

lemma use_free:
  "\<not> (\<exists>e. store_get cm (key_of cm command entityId) = Some e \<and> int now1 < e) \<Longrightarrow>
     use cm command entityId d now1 now2 =
       (if d \<le> 0 then (Threw COOLDOWN_INVALID_DURATION, cm)
        else (Returned (), store_set cm (key_of cm command entityId) (int now2 + d)))"
  by (auto simp add: use_def Let_def onCooldown_iff set_cooldown_def)

text \<open>
  C3, as the code has it. \<open>use\<close> throws \<open>COOLDOWN_ACTIVE\<close> exactly when the stored
  expiry of the key is greater than the time read by the check; the error carries the
  difference and the store is unchanged. Otherwise, with a duration greater than 0, it
  stores the time read by \<open>set\<close> plus the duration and returns; with a duration of 0 or
  less it throws \<open>COOLDOWN_INVALID_DURATION\<close> and stores nothing. After a successful
  \<open>use\<close>, a second one on the same key fails while the clock is before the stored
  expiry and succeeds from the expiry instant on.
\<close>

theorem use_check_then_set:
  "((\<exists>x. fst (use cm command entityId d now1 now2) = Threw (COOLDOWN_ACTIVE x)) \<longleftrightarrow>
      (\<exists>e. store_get cm (key_of cm command entityId) = Some e \<and> int now1 < e))
   \<and> (store_get cm (key_of cm command entityId) = Some e \<and> int now1 < e \<longrightarrow>
        use cm command entityId d now1 now2 = (Threw (COOLDOWN_ACTIVE (e - int now1)), cm))
   \<and> (\<not> (\<exists>e. store_get cm (key_of cm command entityId) = Some e \<and> int now1 < e) \<and> 0 < d \<longrightarrow>
        use cm command entityId d now1 now2 =
          (Returned (), store_set cm (key_of cm command entityId) (int now2 + d)))
   \<and> (\<not> (\<exists>e. store_get cm (key_of cm command entityId) = Some e \<and> int now1 < e) \<and> d \<le> 0 \<longrightarrow>
        use cm command entityId d now1 now2 = (Threw COOLDOWN_INVALID_DURATION, cm))
   \<and> (use cm command entityId d now1 now2 = (Returned (), cm') \<and> int now3 < int now2 + d \<longrightarrow>
        use cm' command entityId d' now3 now4 =
          (Threw (COOLDOWN_ACTIVE (int now2 + d - int now3)), cm'))
   \<and> (use cm command entityId d now1 now2 = (Returned (), cm') \<and> int now2 + d \<le> int now3 \<and>
        0 < d' \<longrightarrow>
        use cm' command entityId d' now3 now4 =
          (Returned (), store_set cm' (key_of cm' command entityId) (int now4 + d')))"
proof -
  let ?k = "key_of cm command entityId"
  let ?on = "\<exists>e. store_get cm ?k = Some e \<and> int now1 < e"
  have iff: "(\<exists>x. fst (use cm command entityId d now1 now2) = Threw (COOLDOWN_ACTIVE x)) \<longleftrightarrow> ?on"
  proof (cases ?on)
    case True
    then show ?thesis using use_active[of cm command entityId _ now1 d now2] by auto
  next
    case False
    then show ?thesis using use_free[of cm command entityId now1 d now2] by auto
  qed
  have active: "use cm command entityId d now1 now2 = (Threw (COOLDOWN_ACTIVE (e - int now1)), cm)"
    if "store_get cm ?k = Some e \<and> int now1 < e"
    using that by (simp add: use_active)
  have stored: "use cm command entityId d now1 now2 = (Returned (), store_set cm ?k (int now2 + d))"
    if "\<not> ?on \<and> 0 < d"
    using that use_free[of cm command entityId now1 d now2] by simp
  have invalid: "use cm command entityId d now1 now2 = (Threw COOLDOWN_INVALID_DURATION, cm)"
    if "\<not> ?on \<and> d \<le> 0"
    using that use_free[of cm command entityId now1 d now2] by simp
  have after: "cm' = store_set cm ?k (int now2 + d) \<and> 0 < d"
    if u: "use cm command entityId d now1 now2 = (Returned (), cm')"
  proof (cases ?on)
    case True
    then obtain e0 where "store_get cm ?k = Some e0" "int now1 < e0" by blast
    from use_active[OF this, of d now2] u show ?thesis by simp
  next
    case False
    from use_free[OF this, of d now2] u show ?thesis by (auto split: if_splits)
  qed
  have again: "use cm' command entityId d' now3 now4 =
          (Threw (COOLDOWN_ACTIVE (int now2 + d - int now3)), cm')"
    if u: "use cm command entityId d now1 now2 = (Returned (), cm') \<and> int now3 < int now2 + d"
  proof -
    from after u have cm': "cm' = store_set cm ?k (int now2 + d)" by blast
    then have "store_get cm' (key_of cm' command entityId) = Some (int now2 + d)"
      by (simp add: store_get_store_set)
    with u show ?thesis by (simp add: use_active)
  qed
  have later: "use cm' command entityId d' now3 now4 =
          (Returned (), store_set cm' (key_of cm' command entityId) (int now4 + d'))"
    if u: "use cm command entityId d now1 now2 = (Returned (), cm') \<and> int now2 + d \<le> int now3 \<and> 0 < d'"
  proof -
    from after u have cm': "cm' = store_set cm ?k (int now2 + d)" by blast
    then have "store_get cm' (key_of cm' command entityId) = Some (int now2 + d)"
      by (simp add: store_get_store_set)
    with u have "\<not> (\<exists>e. store_get cm' (key_of cm' command entityId) = Some e \<and> int now3 < e)"
      by auto
    from use_free[OF this, of d' now4] u show ?thesis by simp
  qed
  from iff active stored invalid again later show ?thesis by blast
qed

theorem use_check_then_set_witness:
  "use \<lparr>store = [], prefix = js ''forge:cd:''\<rparr> (js ''ban'') (js ''u1'') 1000 5000 5001 =
     (Returned (), \<lparr>store = [(js ''forge:cd:ban:u1'', 6001)], prefix = js ''forge:cd:''\<rparr>)
   \<and> use \<lparr>store = [(js ''forge:cd:ban:u1'', 6001)], prefix = js ''forge:cd:''\<rparr>
        (js ''ban'') (js ''u1'') 1000 5002 5003 =
     (Threw (COOLDOWN_ACTIVE 999),
      \<lparr>store = [(js ''forge:cd:ban:u1'', 6001)], prefix = js ''forge:cd:''\<rparr>)
   \<and> use \<lparr>store = [(js ''forge:cd:ban:u1'', 6001)], prefix = js ''forge:cd:''\<rparr>
        (js ''ban'') (js ''u1'') 1000 6001 6002 =
     (Returned (), \<lparr>store = [(js ''forge:cd:ban:u1'', 7002)], prefix = js ''forge:cd:''\<rparr>)
   \<and> use \<lparr>store = [], prefix = js ''forge:cd:''\<rparr> (js ''ban'') (js ''u1'') (- 5) 5000 5001 =
     (Threw COOLDOWN_INVALID_DURATION, \<lparr>store = [], prefix = js ''forge:cd:''\<rparr>)
   \<and> use \<lparr>store = [(js ''forge:cd:ban:u1'', 6001)], prefix = js ''forge:cd:''\<rparr>
        (js ''ban'') (js ''u1'') 1000 6000 6000 =
     (Threw (COOLDOWN_ACTIVE 1),
      \<lparr>store = [(js ''forge:cd:ban:u1'', 6001)], prefix = js ''forge:cd:''\<rparr>)"
proof -
  let ?cm0 = "\<lparr>store = [], prefix = js ''forge:cd:''\<rparr>"
  let ?cm1 = "\<lparr>store = [(js ''forge:cd:ban:u1'', 6001)], prefix = js ''forge:cd:''\<rparr>"
  let ?cm2 = "\<lparr>store = [(js ''forge:cd:ban:u1'', 7002)], prefix = js ''forge:cd:''\<rparr>"
  have k0: "key_of ?cm0 (js ''ban'') (js ''u1'') = js ''forge:cd:ban:u1''"
    and k1: "key_of ?cm1 (js ''ban'') (js ''u1'') = js ''forge:cd:ban:u1''"
    by (simp_all add: key_of_def js_def)
  have free0: "\<not> (\<exists>e. store_get ?cm0 (key_of ?cm0 (js ''ban'') (js ''u1'')) = Some e \<and> int 5000 < e)"
    by (simp add: store_get_def)
  have s1: "store_set ?cm0 (js ''forge:cd:ban:u1'') 6001 = ?cm1"
    and s2: "store_set ?cm1 (js ''forge:cd:ban:u1'') 7002 = ?cm2"
    by (simp_all add: store_set_def)
  have c1: "use ?cm0 (js ''ban'') (js ''u1'') 1000 5000 5001 = (Returned (), ?cm1)"
    using use_check_then_set[where cm = "?cm0" and command = "js ''ban''" and entityId = "js ''u1''"
        and d = 1000 and ?now1.0 = 5000 and ?now2.0 = 5001,
        THEN conjunct2, THEN conjunct2, THEN conjunct1, THEN mp] free0
    by (simp add: k0 s1)
  have c2: "use ?cm1 (js ''ban'') (js ''u1'') 1000 5002 5003 = (Threw (COOLDOWN_ACTIVE 999), ?cm1)"
    using use_check_then_set[where cm = "?cm0" and command = "js ''ban''" and entityId = "js ''u1''"
        and d = 1000 and ?now1.0 = 5000 and ?now2.0 = 5001 and cm' = "?cm1" and ?now3.0 = 5002
        and d' = 1000 and ?now4.0 = 5003,
        THEN conjunct2, THEN conjunct2, THEN conjunct2, THEN conjunct2, THEN conjunct1, THEN mp] c1
    by simp
  have c3: "use ?cm1 (js ''ban'') (js ''u1'') 1000 6001 6002 = (Returned (), ?cm2)"
    using use_check_then_set[where cm = "?cm0" and command = "js ''ban''" and entityId = "js ''u1''"
        and d = 1000 and ?now1.0 = 5000 and ?now2.0 = 5001 and cm' = "?cm1" and ?now3.0 = 6001
        and d' = 1000 and ?now4.0 = 6002,
        THEN conjunct2, THEN conjunct2, THEN conjunct2, THEN conjunct2, THEN conjunct2, THEN mp] c1
    by (simp add: k1 s2)
  have c4: "use ?cm0 (js ''ban'') (js ''u1'') (- 5) 5000 5001 = (Threw COOLDOWN_INVALID_DURATION, ?cm0)"
    using use_check_then_set[where cm = "?cm0" and command = "js ''ban''" and entityId = "js ''u1''"
        and d = "- 5" and ?now1.0 = 5000 and ?now2.0 = 5001,
        THEN conjunct2, THEN conjunct2, THEN conjunct2, THEN conjunct1, THEN mp] free0
    by simp
  have on1: "store_get ?cm1 (key_of ?cm1 (js ''ban'') (js ''u1'')) = Some 6001 \<and> int 6000 < 6001"
    by (simp add: k1 store_get_def)
  have c5: "use ?cm1 (js ''ban'') (js ''u1'') 1000 6000 6000 = (Threw (COOLDOWN_ACTIVE 1), ?cm1)"
    using use_check_then_set[where cm = "?cm1" and command = "js ''ban''" and entityId = "js ''u1''"
        and d = 1000 and ?now1.0 = 6000 and ?now2.0 = 6000 and e = 6001,
        THEN conjunct2, THEN conjunct1, THEN mp, OF on1]
    by simp
  from c1 c2 c3 c4 c5 show ?thesis by blast
qed

text \<open>
  C3 as first stated says that \<open>use\<close> stores and returns whenever the key is free. That
  fails for a duration that is not positive: on a fresh manager the key is free, and
  \<open>use\<close> with duration 0 throws \<open>COOLDOWN_INVALID_DURATION\<close> and stores nothing.
\<close>

theorem use_zero_duration_throws:
  "store_get (new_CooldownManager \<lparr>opt_store = None, opt_keyPrefix = None\<rparr>)
      (key_of (new_CooldownManager \<lparr>opt_store = None, opt_keyPrefix = None\<rparr>)
         (js ''ban'') (js ''u1'')) = None
   \<and> use (new_CooldownManager \<lparr>opt_store = None, opt_keyPrefix = None\<rparr>)
        (js ''ban'') (js ''u1'') 0 5000 5000
     = (Threw COOLDOWN_INVALID_DURATION,
        new_CooldownManager \<lparr>opt_store = None, opt_keyPrefix = None\<rparr>)"
  by (simp add: new_CooldownManager_def store_get_def use_def Let_def check_def set_cooldown_def)

lemma sweep_loop_spec:
  "distinct (map fst (pre @ rest)) \<Longrightarrow> store cm = pre @ rest \<Longrightarrow>
     sweep_loop rest now cm n =
       (n + length (filter (\<lambda>(k, e). e \<le> int now) rest),
        cm\<lparr>store := pre @ filter (\<lambda>(k, e). \<not> e \<le> int now) rest\<rparr>)"
proof (induction rest arbitrary: pre cm n)
  case Nil
  then show ?case by simp
next
  case (Cons ke rest)
  obtain k e where ke: "ke = (k, e)" by (cases ke)
  show ?case
  proof (cases "e \<le> int now")
    case True
    from Cons.prems(1) have notin: "k \<notin> fst ` set pre" "k \<notin> fst ` set rest"
      by (auto simp add: ke)
    have "AList.delete k (pre @ (k, e) # rest) = AList.delete k pre @ AList.delete k rest"
      by (simp add: AList.delete_eq)
    with notin have del: "AList.delete k (pre @ (k, e) # rest) = pre @ rest"
      by simp
    have st: "store (store_delete cm k) = pre @ rest"
      using Cons.prems(2) del by (simp add: store_delete_def ke)
    have d: "distinct (map fst (pre @ rest))" using Cons.prems(1) by (simp add: ke)
    from Cons.IH[OF d st, of "n + 1"] True show ?thesis
      by (simp add: ke store_delete_def)
  next
    case False
    have d: "distinct (map fst ((pre @ [(k, e)]) @ rest))" using Cons.prems(1) by (simp add: ke)
    have st: "store cm = (pre @ [(k, e)]) @ rest" using Cons.prems(2) by (simp add: ke)
    from Cons.IH[OF d st, of n] False show ?thesis by (simp add: ke)
  qed
qed

text \<open>
  C5. On a store with one entry per key, \<open>sweep\<close> at time \<open>now\<close> leaves exactly the
  entries with an expiry greater than \<open>now\<close>, in their order, returns the number of
  entries with an expiry of at most \<open>now\<close>, and so the number of entries afterwards is
  the number before minus the number returned.
\<close>

theorem sweep_removes_expired:
  assumes "distinct (map fst (store cm))"
  shows "sweep cm now =
           (length (filter (\<lambda>(k, e). e \<le> int now) (store cm)),
            cm\<lparr>store := filter (\<lambda>(k, e). int now < e) (store cm)\<rparr>)
     \<and> length (store (snd (sweep cm now))) =
         length (store cm) - length (filter (\<lambda>(k, e). e \<le> int now) (store cm))
     \<and> fst (sweep cm now) = length (filter (\<lambda>(k, e). e \<le> int now) (store cm))"
proof -
  have live: "(\<lambda>(k, e). \<not> e \<le> int now) = (\<lambda>(k::jsstring, e). int now < e)"
    by (auto simp add: fun_eq_iff)
  have s: "sweep cm now =
           (length (filter (\<lambda>(k, e). e \<le> int now) (store cm)),
            cm\<lparr>store := filter (\<lambda>(k, e). int now < e) (store cm)\<rparr>)"
    using sweep_loop_spec[of "[]" "store cm" cm now 0] assms
    by (simp add: sweep_def store_entries_def live)
  have "length (filter (\<lambda>(k, e). \<not> e \<le> int now) (store cm)) =
      length (store cm) - length (filter (\<lambda>(k, e). e \<le> int now) (store cm))"
    using sum_length_filter_compl[of "\<lambda>(k, e). e \<le> int now" "store cm"]
    by (simp add: split_def)
  then have "length (filter (\<lambda>(k, e). int now < e) (store cm)) =
      length (store cm) - length (filter (\<lambda>(k, e). e \<le> int now) (store cm))"
    by (simp only: live)
  with s show ?thesis by simp
qed

theorem sweep_removes_expired_witness:
  "distinct (map fst [(js ''forge:cd:ban:u1'', 6001 :: int), (js ''forge:cd:ban:u2'', 9000),
                      (js ''forge:cd:kick:u1'', 7000)])
   \<and> sweep \<lparr>store = [(js ''forge:cd:ban:u1'', 6001), (js ''forge:cd:ban:u2'', 9000),
                      (js ''forge:cd:kick:u1'', 7000)], prefix = js ''forge:cd:''\<rparr> 7000
     = (2, \<lparr>store = [(js ''forge:cd:ban:u2'', 9000)], prefix = js ''forge:cd:''\<rparr>)"
proof -
  let ?cm = "\<lparr>store = [(js ''forge:cd:ban:u1'', 6001), (js ''forge:cd:ban:u2'', 9000),
                      (js ''forge:cd:kick:u1'', 7000)], prefix = js ''forge:cd:''\<rparr>"
  have d: "distinct (map fst (store ?cm))" by (simp add: js_def)
  from sweep_removes_expired[OF d, of 7000] d show ?thesis by simp
qed

section \<open>Properties of the paginator\<close>

lemma current_update [simp]: "current (snd (update pg)) = current pg"
  by (simp add: update_def split: outcome.splits option.splits)

lemma pages_update [simp]: "pages (snd (update pg)) = pages pg"
  by (simp add: update_def split: outcome.splits option.splits)









text \<open>
  C8. A missing or empty page sequence is refused with \<open>PAGINATOR_NO_PAGES\<close>. The
  starting index is not checked: with one page and \<open>startPage = 5\<close> the constructor
  returns a paginator whose cursor is 5. \<open>reply\<close> on it then fails with a
  \<open>TypeError\<close>, and \<open>goTo\<close> refuses the same index with \<open>PAGINATOR_INVALID_PAGE\<close>.
\<close>

theorem constructor_startPage_unchecked:
  "new_Paginator (None :: nat list option)
      \<lparr>startPage = None, opt_timeout = None, showPageCount = None, opt_ephemeral = None,
       opt_showStop = None, opt_userId = None\<rparr> = Threw PAGINATOR_NO_PAGES
   \<and> new_Paginator (Some ([] :: nat list))
      \<lparr>startPage = None, opt_timeout = None, showPageCount = None, opt_ephemeral = None,
       opt_showStop = None, opt_userId = None\<rparr> = Threw PAGINATOR_NO_PAGES
   \<and> new_Paginator (Some [10 :: nat])
      \<lparr>startPage = Some 5, opt_timeout = None, showPageCount = None, opt_ephemeral = None,
       opt_showStop = None, opt_userId = None\<rparr>
     = Returned \<lparr>pages = [10], current = 5, timeout = 120000, showCount = True,
         ephemeral = False, showStop = True, userId = None, collector_active = None,
         message = None\<rparr>
   \<and> fst (reply \<lparr>pages = [10 :: nat], current = 5, timeout = 120000, showCount = True,
         ephemeral = False, showStop = True, userId = None, collector_active = None,
         message = None\<rparr> \<lparr>customId = None, user_id = js ''u1''\<rparr>) = Threw TypeError
   \<and> fst (goTo \<lparr>pages = [10 :: nat], current = 0, timeout = 120000, showCount = True,
         ephemeral = False, showStop = True, userId = None, collector_active = None,
         message = None\<rparr> 5) = Threw PAGINATOR_INVALID_PAGE"
  by (simp add: new_Paginator_def or_default_def reply_def buildPayload_def Let_def goTo_def)

section \<open>The confirmation flow when the acknowledgement fails\<close>

text \<open>
  C4. The claim is that every session ends in exactly one outcome: the promise resolved
  by the owner's click or rejected with \<open>CONFIRMATION_TIMED_OUT\<close>. The code misses the
  case where \<open>btn.deferUpdate()\<close> rejects. For the session that \<open>ask\<close> starts with the
  default options, the owner's click on the confirm button passes the filter. If the
  acknowledgement of that click rejects, the \<open>collect\<close> handler throws before
  \<open>resolve\<close>. The collector was created with \<open>max: 1\<close>, so this click ends it with
  the reason \<open>limit\<close>, for which the \<open>end\<close> handler does nothing. Nothing is settled:
  the promise stays pending. The sibling call \<open>message.edit\<close> is guarded: when it fails
  the handlers still settle the promise, the click to \<open>true\<close> and an end by timeout to
  \<open>CONFIRMATION_TIMED_OUT\<close>.
\<close>

theorem confirmation_unsettled_when_ack_rejects:
  "col_max (ask default_options \<lparr>customId = None, user_id = js ''owner''\<rparr> (js ''n1'')) = Some 1
   \<and> confirm_filter (ask default_options \<lparr>customId = None, user_id = js ''owner''\<rparr> (js ''n1''))
        \<lparr>customId = Some (js ''forge_confirm_yes_n1''), user_id = js ''owner''\<rparr>
      = (True, ask default_options \<lparr>customId = None, user_id = js ''owner''\<rparr> (js ''n1''))
   \<and> confirm_on_collect (ask default_options \<lparr>customId = None, user_id = js ''owner''\<rparr> (js ''n1''))
        \<lparr>customId = Some (js ''forge_confirm_yes_n1''), user_id = js ''owner''\<rparr>
        (Threw DiscordAPIError) True
      = (Threw DiscordAPIError,
         ask default_options \<lparr>customId = None, user_id = js ''owner''\<rparr> (js ''n1''))
   \<and> confirm_on_end (ask default_options \<lparr>customId = None, user_id = js ''owner''\<rparr> (js ''n1''))
        Limit True
      = ask default_options \<lparr>customId = None, user_id = js ''owner''\<rparr> (js ''n1'')
   \<and> promise (ask default_options \<lparr>customId = None, user_id = js ''owner''\<rparr> (js ''n1'')) = None
   \<and> settled_by (ask default_options \<lparr>customId = None, user_id = js ''owner''\<rparr> (js ''n1'')) = []
   \<and> settled_by (snd (confirm_on_collect
          (ask default_options \<lparr>customId = None, user_id = js ''owner''\<rparr> (js ''n1''))
          \<lparr>customId = Some (js ''forge_confirm_yes_n1''), user_id = js ''owner''\<rparr>
          (Returned ()) False))
      = [Returned True]
   \<and> settled_by (confirm_on_end
          (ask default_options \<lparr>customId = None, user_id = js ''owner''\<rparr> (js ''n1''))
          Time False)
      = [Threw CONFIRMATION_TIMED_OUT]"
  by (simp add: ask_def default_options_def confirm_filter_def confirm_on_collect_def
        confirm_on_end_def settle_def Let_def js_def)

end
